theory Spec2Isabelle
  imports Complex_Main "HOL-Library.Monad_Syntax" "HOL-Library.Multiset" "HOL-Library.Sublist"
    "HOL-Library.Code_Target_Nat"
begin

section \<open>Values of the JavaScript runtime\<close>

text \<open>
  The views keep the records they load as the plain objects that \<^verbatim>\<open>JSON.parse\<close> or the
  store client returned (\<^verbatim>\<open>useState([])\<close>, no type at the boundary). A record is therefore
  modelled as a JSON object: its properties in enumeration order, each with a JSON value.
  Strings are sequences of bytes (UTF-8, which is also what a \<^verbatim>\<open>Blob\<close> holds).

  Numbers are IEEE doubles: \<open>NaN\<close>, the two infinities (\<open>Infinity True\<close> is the negative
  one) and the finite doubles, each given by the rational it stands for. The two zeros
  are one value \<open>Fin 0\<close>: they print alike, compare equal, and the only divisors of the
  program are lengths. Arithmetic rounds its exact result to the nearest double.
\<close>

datatype jsnum = NaN | Infinity bool | Fin rat

datatype json =
    JNull
  | JBool bool
  | JNum jsnum
  | JStr string
  | JArr "json list"
  | JObj "(string \<times> json) list"

type_synonym row = "(string \<times> json) list"

text \<open>\<^verbatim>\<open>curr.field\<close> on a record: the property's value, \<open>None\<close> for \<^verbatim>\<open>undefined\<close>.\<close>

definition field :: "row \<Rightarrow> string \<Rightarrow> json option" where
  "field r k = map_of r k"

subsection \<open>Doubles\<close>

text \<open>
  The number of digits of a positive integer in a base, and a power with an integer
  exponent, by squaring.
\<close>

function ilen :: "int \<Rightarrow> int \<Rightarrow> int" where
  "ilen b a = (if a \<le> 0 \<or> b \<le> 1 then 0 else 1 + ilen b (a div b))"
  by pat_completeness auto
termination
  by (relation "measure (\<lambda>(b, a). nat a)")
     (auto simp: pos_imp_zdiv_nonneg_iff intro: int_div_less_self)

declare ilen.simps [simp del]

function pw :: "rat \<Rightarrow> int \<Rightarrow> rat" where
  "pw x n = (if n \<le> 0 then 1
             else let h = pw x (n div 2) in if even n then h * h else x * h * h)"
  by pat_completeness auto
termination
  by (relation "measure (\<lambda>(x, n). nat n)") auto

declare pw.simps [simp del]

definition power_of :: "rat \<Rightarrow> int \<Rightarrow> rat" where
  "power_of x e = (if 0 \<le> e then pw x e else 1 / pw x (- e))"

text \<open>The exponent \<open>e\<close> with \<open>b^e \<le> x < b^(e + 1)\<close>, for a positive \<open>x\<close>.\<close>

definition ilog :: "int \<Rightarrow> rat \<Rightarrow> int" where
  "ilog b x =
     (let (n, d) = quotient_of x;
          e = ilen b n - ilen b d
      in if power_of (of_int b) e \<le> x then e else e - 1)"

text \<open>The nearest integer, the even one of two equally near.\<close>

definition round_even :: "rat \<Rightarrow> int" where
  "round_even x =
     (let f = \<lfloor>x\<rfloor>; r = x - of_int f
      in if r < 1 / 2 then f else if 1 / 2 < r then f + 1 else if even f then f else f + 1)"

text \<open>
  The double nearest to a rational (binary64, round to nearest, ties to even): 53
  significant bits at the exponent \<open>e\<close> of the number, which is at least \<open>-1022\<close> (below,
  the doubles are evenly spaced); a magnitude that rounds to \<open>2^1024\<close> or more is infinite.
\<close>

definition double :: "rat \<Rightarrow> jsnum" where
  "double q =
     (if q = 0 then Fin 0
      else
        (let e = max (ilog 2 \<bar>q\<bar>) (- 1022);
             m = round_even (\<bar>q\<bar> * power_of 2 (52 - e))
         in if 1023 < e \<or> (e = 1023 \<and> m = 9007199254740992) then Infinity (q < 0)
            else Fin ((if q < 0 then - 1 else 1) * of_int m * power_of 2 (e - 52))))"

text \<open>The operators \<^verbatim>\<open>+\<close>, \<^verbatim>\<open>*\<close>, \<^verbatim>\<open>/\<close> and \<^verbatim>\<open><\<close> on numbers.\<close>

fun num_add :: "jsnum \<Rightarrow> jsnum \<Rightarrow> jsnum" where
  "num_add (Fin a) (Fin b) = double (a + b)"
| "num_add (Infinity s) (Infinity t) = (if s = t then Infinity s else NaN)"
| "num_add (Infinity s) (Fin b) = Infinity s"
| "num_add (Fin a) (Infinity t) = Infinity t"
| "num_add _ _ = NaN"

fun num_mul :: "jsnum \<Rightarrow> jsnum \<Rightarrow> jsnum" where
  "num_mul (Fin a) (Fin b) = double (a * b)"
| "num_mul (Infinity s) (Infinity t) = Infinity (s \<noteq> t)"
| "num_mul (Infinity s) (Fin b) = (if b = 0 then NaN else Infinity (s \<noteq> (b < 0)))"
| "num_mul (Fin a) (Infinity t) = (if a = 0 then NaN else Infinity ((a < 0) \<noteq> t))"
| "num_mul _ _ = NaN"

fun num_div :: "jsnum \<Rightarrow> jsnum \<Rightarrow> jsnum" where
  "num_div (Fin a) (Fin b) =
     (if b = 0 then (if a = 0 then NaN else Infinity (a < 0)) else double (a / b))"
| "num_div (Fin a) (Infinity t) = Fin 0"
| "num_div (Infinity s) (Fin b) = Infinity (s \<noteq> (b < 0))"
| "num_div _ _ = NaN"


subsection \<open>Text of a value\<close>

definition digit_char :: "nat \<Rightarrow> char" where
  "digit_char d = char_of (48 + d)"

fun nat_text :: "nat \<Rightarrow> string" where
  "nat_text n = (if n < 10 then [digit_char n] else nat_text (n div 10) @ [digit_char (n mod 10)])"

declare nat_text.simps [simp del]

text \<open>
  \<^verbatim>\<open>Number::toString\<close> of a positive double \<open>x\<close> takes the integers \<open>n\<close>, \<open>k\<close> and \<open>s\<close> with
  \<open>10^(k - 1) \<le> s < 10^k\<close> such that \<open>s * 10^(n - k)\<close> rounds to \<open>x\<close>, with \<open>k\<close> as small as
  possible, and of several such \<open>s\<close> the one that gives the number nearest to \<open>x\<close>.

  For a given \<open>k\<close> the numbers \<open>s * 10^(n - k)\<close> next to \<open>x\<close> are the one below (or at) \<open>x\<close>
  and the one above: a pair \<open>(s, n)\<close> each. The one above may be a power of ten, which
  has \<open>s = 10^(k - 1)\<close> and the next \<open>n\<close>.
\<close>

definition candidates :: "rat \<Rightarrow> int \<Rightarrow> (int \<times> int) \<times> (int \<times> int)" where
  "candidates x k =
     (let n = ilog 10 x + 1;
          lo = \<lfloor>x * power_of 10 (k - n)\<rfloor>
      in ((lo, n),
          (if of_int (lo + 1) = power_of 10 k then (\<lfloor>power_of 10 (k - 1)\<rfloor>, n + 1)
           else (lo + 1, n))))"

definition decimal_of :: "int \<Rightarrow> int \<times> int \<Rightarrow> rat" where
  "decimal_of k c = of_int (fst c) * power_of 10 (snd c - k)"

definition nearer :: "rat \<Rightarrow> int \<Rightarrow> int \<times> int \<Rightarrow> int \<times> int \<Rightarrow> int \<times> int" where
  "nearer x k a b =
     (let da = \<bar>decimal_of k a - x\<bar>; db = \<bar>decimal_of k b - x\<bar>
      in if da < db then a else if db < da then b else if even (fst a) then a else b)"

definition digits_at :: "rat \<Rightarrow> int \<Rightarrow> (int \<times> int) option" where
  "digits_at x k =
     (let (a, b) = candidates x k;
          ra = (double (decimal_of k a) = Fin x);
          rb = (double (decimal_of k b) = Fin x)
      in if ra \<and> rb then Some (nearer x k a b)
         else if ra then Some a
         else if rb then Some b
         else None)"

text \<open>
  The search for the least \<open>k\<close>, from \<open>k\<close> on. Seventeen digits give back every double, so
  the search ends there with the nearest decimal of that length.
\<close>

fun shortest :: "rat \<Rightarrow> nat \<Rightarrow> int \<Rightarrow> int \<times> int" where
  "shortest x 0 k = (let (a, b) = candidates x k in nearer x k a b)"
| "shortest x (Suc fuel) k =
     (case digits_at x k of Some c \<Rightarrow> c | None \<Rightarrow> shortest x fuel (k + 1))"

text \<open>
  The text of the digits \<open>ds\<close> of \<open>s\<close> and of \<open>n\<close>: the digits with zeros after them, with
  a point among them, or after \<^verbatim>\<open>0.\<close> and zeros; from \<open>10^21\<close> on and below \<open>10^-6\<close>, with an
  exponent.
\<close>

definition number_format :: "string \<Rightarrow> int \<Rightarrow> string" where
  "number_format ds n =
     (let k = int (length ds) in
      if k \<le> n \<and> n \<le> 21 then ds @ replicate (nat (n - k)) (CHR ''0'')
      else if 0 < n \<and> n \<le> 21 then take (nat n) ds @ ''.'' @ drop (nat n) ds
      else if - 6 < n \<and> n \<le> 0 then ''0.'' @ replicate (nat (- n)) (CHR ''0'') @ ds
      else (if k = 1 then ds else hd ds # ''.'' @ tl ds)
           @ ''e'' @ (if n - 1 < 0 then ''-'' else ''+'') @ nat_text (nat \<bar>n - 1\<bar>))"

definition num_text :: "jsnum \<Rightarrow> string" where
  "num_text n =
     (case n of
        NaN \<Rightarrow> ''NaN''
      | Infinity s \<Rightarrow> (if s then ''-Infinity'' else ''Infinity'')
      | Fin q \<Rightarrow>
          if q = 0 then ''0''
          else
            (let (s, n) = shortest \<bar>q\<bar> 16 1
             in (if q < 0 then ''-'' else '''') @ number_format (nat_text (nat s)) n))"

text \<open>\<^verbatim>\<open>Array.prototype.join\<close> on texts.\<close>

fun join :: "string \<Rightarrow> string list \<Rightarrow> string" where
  "join sep [] = []"
| "join sep [x] = x"
| "join sep (x # y # ys) = x @ sep @ join sep (y # ys)"

text \<open>
  \<^verbatim>\<open>ToString\<close> of a JSON value, as a template literal \<^verbatim>\<open>`${val}`\<close> and a computed
  property key \<^verbatim>\<open>acc[val]\<close> apply it: an array is its elements joined by commas, with
  \<^verbatim>\<open>null\<close> elements empty, and an object is \<^verbatim>\<open>[object Object]\<close>.
\<close>

fun js_string :: "json \<Rightarrow> string" where
  "js_string JNull = ''null''"
| "js_string (JBool b) = (if b then ''true'' else ''false'')"
| "js_string (JNum n) = num_text n"
| "js_string (JStr s) = s"
| "js_string (JArr xs) = join '','' (map (\<lambda>x. if x = JNull then [] else js_string x) xs)"
| "js_string (JObj ps) = ''[object Object]''"

definition to_text :: "json option \<Rightarrow> string" where
  "to_text v = (case v of None \<Rightarrow> ''undefined'' | Some x \<Rightarrow> js_string x)"

section \<open>Objects used as dictionaries\<close>

text \<open>
  Every group-by of the views is
  \<^verbatim>\<open>list.reduce((acc, curr) => { acc[curr.f] = (acc[curr.f] || 0) + 1; return acc; }, {})\<close>.
  The accumulator is an ordinary object, which differs from a dictionary in two ways.

  \<^item> Its properties are enumerated (\<^verbatim>\<open>Object.entries\<close>) with the array indices first, in
    ascending numeric order, then the other keys in the order of their creation.
  \<^item> A key that names a member of \<^verbatim>\<open>Object.prototype\<close> reads that member, not
    \<^verbatim>\<open>undefined\<close>: the bucket then holds a text, not a count. The model stops there
    (\<open>None\<close>) and says nothing about such inputs.
\<close>

definition is_digit :: "char \<Rightarrow> bool" where
  "is_digit c = (48 \<le> (of_char c :: nat) \<and> (of_char c :: nat) \<le> 57)"

definition digits_value :: "string \<Rightarrow> nat" where
  "digits_value s = foldl (\<lambda>n c. 10 * n + ((of_char c :: nat) - 48)) 0 s"

text \<open>An array index: the canonical decimal text of an integer below \<open>2^32 - 1\<close>.\<close>

definition array_index :: "string \<Rightarrow> nat option" where
  "array_index s =
     (if s \<noteq> [] \<and> list_all is_digit s \<and> (s = ''0'' \<or> hd s \<noteq> CHR ''0'')
         \<and> digits_value s < 4294967295
      then Some (digits_value s) else None)"

definition inherited :: "string \<Rightarrow> bool" where
  "inherited k = (k \<in> set [''constructor'', ''__proto__'', ''hasOwnProperty'',
     ''isPrototypeOf'', ''propertyIsEnumerable'', ''toString'', ''toLocaleString'',
     ''valueOf'', ''__defineGetter__'', ''__defineSetter__'', ''__lookupGetter__'',
     ''__lookupSetter__''])"

type_synonym 'a obj = "(string \<times> 'a) list"

definition before_index :: "nat \<Rightarrow> string \<times> 'a \<Rightarrow> bool" where
  "before_index i p = (case array_index (fst p) of None \<Rightarrow> False | Some j \<Rightarrow> j < i)"

text \<open>Creating a property: an array index goes to its numeric place, another key to the end.\<close>

definition obj_add :: "'a obj \<Rightarrow> string \<Rightarrow> 'a \<Rightarrow> 'a obj" where
  "obj_add acc k v =
     (case array_index k of
        None \<Rightarrow> acc @ [(k, v)]
      | Some i \<Rightarrow> takeWhile (before_index i) acc @ (k, v) # dropWhile (before_index i) acc)"

text \<open>\<^verbatim>\<open>acc[k] = v\<close>: an existing property keeps its place.\<close>

definition obj_set :: "'a obj \<Rightarrow> string \<Rightarrow> 'a \<Rightarrow> 'a obj" where
  "obj_set acc k v =
     (if k \<in> fst ` set acc then map (\<lambda>p. if fst p = k then (k, v) else p) acc
      else obj_add acc k v)"

text \<open>\<^verbatim>\<open>acc[k] || 0\<close> on an accumulator of counts.\<close>

definition obj_get0 :: "nat obj \<Rightarrow> string \<Rightarrow> nat" where
  "obj_get0 acc k = (case map_of acc k of None \<Rightarrow> 0 | Some n \<Rightarrow> n)"

definition count_step :: "string \<Rightarrow> nat obj option \<Rightarrow> row \<Rightarrow> nat obj option" where
  "count_step f acc cur =
     (case acc of
        None \<Rightarrow> None
      | Some a \<Rightarrow>
          (let k = to_text (field cur f)
           in if inherited k then None else Some (obj_set a k (obj_get0 a k + 1))))"



text \<open>The bucket a record falls into: the property key its field turns into.\<close>

definition bucket :: "string \<Rightarrow> row \<Rightarrow> string" where
  "bucket f r = to_text (field r f)"

text \<open>The order of first encounter: each element once, where it first occurs.\<close>

fun first_seen :: "'a list \<Rightarrow> 'a list" where
  "first_seen [] = []"
| "first_seen (x # xs) = x # filter (\<lambda>y. y \<noteq> x) (first_seen xs)"



section \<open>Dashboard: charts\<close>

text \<open>
  \<^verbatim>\<open>Array.prototype.sort\<close> with a comparator. The sort is stable (ECMAScript 2019), and
  for a consistent comparator the stable sorted arrangement of an array is unique:
  insertion from the right computes it.
\<close>

fun insort_cmp :: "('a \<Rightarrow> 'a \<Rightarrow> int) \<Rightarrow> 'a \<Rightarrow> 'a list \<Rightarrow> 'a list" where
  "insort_cmp cmp x [] = [x]"
| "insort_cmp cmp x (y # ys) =
     (if cmp x y \<le> 0 then x # y # ys else y # insort_cmp cmp x ys)"

definition js_sort :: "('a \<Rightarrow> 'a \<Rightarrow> int) \<Rightarrow> 'a list \<Rightarrow> 'a list" where
  "js_sort cmp xs = foldr (insort_cmp cmp) xs []"










section \<open>Dashboard: statistics\<close>








record view =
  assessments :: "row list"






definition created :: "string \<Rightarrow> row" where
  "created t = [(''severity'', JStr ''High''), (''created_at'', JStr t)]"

section \<open>Reports: insights\<close>

text \<open>
  \<^verbatim>\<open>Number.prototype.toFixed(1)\<close>: the tenth nearest to the exact value of the double, the
  larger one of two equally near; from \<open>10^21\<close> on, and for the values that are not
  finite, the text of the number.
\<close>

definition toFixed1 :: "jsnum \<Rightarrow> string" where
  "toFixed1 x =
     (case x of
        Fin q \<Rightarrow>
          if 1000000000000000000000 \<le> \<bar>q\<bar> then num_text x
          else
            (let n = nat \<lfloor>\<bar>q\<bar> * 10 + 1 / 2\<rfloor>
             in (if q < 0 then ''-'' else '''') @ nat_text (n div 10) @ ''.'' @ nat_text (n mod 10))
      | _ \<Rightarrow> num_text x)"


text \<open>
  \<^verbatim>\<open>(severityCount['Critical'] || 0) / assessments.length * 100\<close>: a division of two
  counts, which are exact doubles (an array holds fewer than \<open>2^32\<close> elements), then a
  multiplication, each rounded.
\<close>

definition critical_share :: "nat obj \<Rightarrow> nat \<Rightarrow> jsnum" where
  "critical_share severityCount n =
     num_mul (num_div (Fin (of_nat (obj_get0 severityCount ''Critical''))) (Fin (of_nat n)))
       (Fin 100)"





text \<open>
  The two reference tables enter sums, so their rows carry the column types of the
  migration that creates them; a nullable column is an option. The number that a row
  holds for a column is the double nearest to the column's value.
\<close>

record strategy =
  strategy_id :: string
  strategy_risk_type :: string
  strategy_severity :: string
  strategy_title :: string
  strategy_description :: string
  implementation_difficulty :: "string option"
  effectiveness_score :: "int option"
  strategy_created_at :: string

record factor =
  factor_id :: string
  factor_risk_type :: string
  factor_name :: string
  impact_level :: "string option"
  frequency_percentage :: "rat option"
  factor_description :: "string option"
  factor_created_at :: string

record reports = view +
  strategies :: "strategy list"
  riskFactors :: "factor list"

text \<open>What a column adds to a sum: its number, and \<open>0\<close> for \<^verbatim>\<open>null\<close>.\<close>

definition column_number :: "rat option \<Rightarrow> jsnum" where
  "column_number v = (case v of None \<Rightarrow> Fin 0 | Some q \<Rightarrow> double q)"

text \<open>
  \<^verbatim>\<open>xs.reduce((sum, x) => sum + x.f, 0) / xs.length\<close>: the sum is rounded at every step,
  then the quotient; on the empty list it is \<^verbatim>\<open>0 / 0\<close>, which is \<open>NaN\<close>.
\<close>

definition average :: "jsnum list \<Rightarrow> jsnum" where
  "average xs = num_div (foldl num_add (Fin 0) xs) (Fin (of_nat (length xs)))"

definition avgEffectiveness_of :: "strategy list \<Rightarrow> jsnum" where
  "avgEffectiveness_of ss =
     average (map (\<lambda>s. column_number (map_option of_int (effectiveness_score s))) ss)"






section \<open>Reports: export\<close>

subsection \<open>\<^verbatim>\<open>JSON.stringify(value, null, 2)\<close>\<close>

definition hex_digit :: "nat \<Rightarrow> char" where
  "hex_digit n = (if n < 10 then char_of (48 + n) else char_of (87 + n))"

definition escape_char :: "char \<Rightarrow> string" where
  "escape_char c =
     (let n = (of_char c :: nat) in
      if n = 34 then [CHR 0x5C, CHR 0x22]
      else if n = 92 then [CHR 0x5C, CHR 0x5C]
      else if n = 8 then [CHR 0x5C, CHR ''b'']
      else if n = 9 then [CHR 0x5C, CHR ''t'']
      else if n = 10 then [CHR 0x5C, CHR ''n'']
      else if n = 12 then [CHR 0x5C, CHR ''f'']
      else if n = 13 then [CHR 0x5C, CHR ''r'']
      else if n < 32 then
        [CHR 0x5C, CHR ''u'', CHR ''0'', CHR ''0'', hex_digit (n div 16), hex_digit (n mod 16)]
      else [c])"

definition quote :: "string \<Rightarrow> string" where
  "quote s = CHR 0x22 # concat (map escape_char s) @ [CHR 0x22]"

fun stringify :: "string \<Rightarrow> json \<Rightarrow> string" where
  "stringify ind JNull = ''null''"
| "stringify ind (JBool b) = (if b then ''true'' else ''false'')"
| "stringify ind (JNum n) = (case n of Fin q \<Rightarrow> num_text n | _ \<Rightarrow> ''null'')"
| "stringify ind (JStr s) = quote s"
| "stringify ind (JArr xs) =
     (if xs = [] then ''[]''
      else ''['' @ [CHR 0x0A] @ ind @ ''  ''
           @ join ('','' @ [CHR 0x0A] @ ind @ ''  '') (map (stringify (ind @ ''  '')) xs)
           @ [CHR 0x0A] @ ind @ '']'')"
| "stringify ind (JObj ps) =
     (if ps = [] then ''{}''
      else ''{'' @ [CHR 0x0A] @ ind @ ''  ''
           @ join ('','' @ [CHR 0x0A] @ ind @ ''  '')
               (map (\<lambda>p. quote (fst p) @ '': '' @ stringify (ind @ ''  '') (snd p)) ps)
           @ [CHR 0x0A] @ ind @ ''}'')"

definition JSON_stringify :: "json \<Rightarrow> string" where
  "JSON_stringify v = stringify [] v"

subsection \<open>\<^verbatim>\<open>JSON.parse\<close>\<close>

text \<open>
  Reading an export back is the runtime's \<^verbatim>\<open>JSON.parse\<close>, modelled after the JSON grammar
  (ECMA-404) on the bytes of the file: white space, the three literals, strings with their
  escapes, numbers, arrays and objects. \<open>None\<close> is a syntax error, or a text the model
  leaves out: the \<^verbatim>\<open>\u\<close> escape of a surrogate half.
\<close>

definition is_ws :: "char \<Rightarrow> bool" where
  "is_ws c = (c = CHR '' '' \<or> c = CHR 0x09 \<or> c = CHR 0x0A \<or> c = CHR 0x0D)"

definition skip_ws :: "string \<Rightarrow> string" where
  "skip_ws s = dropWhile is_ws s"

text \<open>Strings: the characters after the opening quote, up to the closing one.\<close>

definition hex_value :: "char \<Rightarrow> nat option" where
  "hex_value c =
     (let n = (of_char c :: nat) in
      if 48 \<le> n \<and> n \<le> 57 then Some (n - 48)
      else if 97 \<le> n \<and> n \<le> 102 then Some (n - 87)
      else if 65 \<le> n \<and> n \<le> 70 then Some (n - 55)
      else None)"

definition code_point :: "char \<Rightarrow> char \<Rightarrow> char \<Rightarrow> char \<Rightarrow> nat option" where
  "code_point a b c d =
     (case (hex_value a, hex_value b, hex_value c, hex_value d) of
        (Some w, Some x, Some y, Some z) \<Rightarrow> Some (4096 * w + 256 * x + 16 * y + z)
      | _ \<Rightarrow> None)"

text \<open>The bytes of a code point of the basic plane.\<close>

definition utf8 :: "nat \<Rightarrow> string option" where
  "utf8 n =
     (if n < 128 then Some [char_of n]
      else if n < 2048 then Some [char_of (192 + n div 64), char_of (128 + n mod 64)]
      else if 55296 \<le> n \<and> n < 57344 then None
      else Some [char_of (224 + n div 4096), char_of (128 + n div 64 mod 64),
                 char_of (128 + n mod 64)])"

definition unescape :: "char \<Rightarrow> char option" where
  "unescape e =
     (if e = CHR 0x22 \<or> e = CHR 0x5C \<or> e = CHR ''/'' then Some e
      else if e = CHR ''b'' then Some (CHR 0x08)
      else if e = CHR ''f'' then Some (CHR 0x0C)
      else if e = CHR ''n'' then Some (CHR 0x0A)
      else if e = CHR ''r'' then Some (CHR 0x0D)
      else if e = CHR ''t'' then Some (CHR 0x09)
      else None)"

fun parse_chars :: "string \<Rightarrow> (string \<times> string) option" where
  "parse_chars [] = None"
| "parse_chars (c # s) =
     (if c = CHR 0x22 then Some ([], s)
      else if c = CHR 0x5C then
        (case s of
           [] \<Rightarrow> None
         | e # s1 \<Rightarrow>
            if e = CHR ''u'' then
              (case s1 of
                 a # b # c # d # s2 \<Rightarrow>
                   (case Option.bind (code_point a b c d) utf8 of
                      None \<Rightarrow> None
                    | Some bytes \<Rightarrow> map_option (\<lambda>(t, r). (bytes @ t, r)) (parse_chars s2))
               | _ \<Rightarrow> None)
            else
              (case unescape e of
                 None \<Rightarrow> None
               | Some x \<Rightarrow> map_option (\<lambda>(t, r). (x # t, r)) (parse_chars s1)))
      else if (of_char c :: nat) < 32 then None
      else map_option (\<lambda>(t, r). (c # t, r)) (parse_chars s))"

text \<open>
  Numbers: an optional sign, digits without a leading zero, an optional fraction, an
  optional exponent. The value is the double nearest to the decimal number written.
\<close>

definition decimal :: "bool \<Rightarrow> string \<Rightarrow> string \<Rightarrow> rat" where
  "decimal neg ds fs =
     (if neg then - 1 else 1)
       * (of_nat (digits_value ds) + of_nat (digits_value fs) / 10 ^ length fs)"

definition parse_number :: "string \<Rightarrow> (jsnum \<times> string) option" where
  "parse_number s =
     (let neg = (s \<noteq> [] \<and> hd s = CHR ''-'');
          s1 = (if neg then tl s else s);
          ds = takeWhile is_digit s1;
          s2 = dropWhile is_digit s1;
          frac = (s2 \<noteq> [] \<and> hd s2 = CHR ''.'');
          fs = (if frac then takeWhile is_digit (tl s2) else []);
          s3 = (if frac then dropWhile is_digit (tl s2) else s2);
          ex = (s3 \<noteq> [] \<and> (hd s3 = CHR ''e'' \<or> hd s3 = CHR ''E''));
          s4 = (if ex then tl s3 else s3);
          sg = (ex \<and> s4 \<noteq> [] \<and> (hd s4 = CHR ''+'' \<or> hd s4 = CHR ''-''));
          s5 = (if sg then tl s4 else s4);
          xs = (if ex then takeWhile is_digit s5 else []);
          s6 = (if ex then dropWhile is_digit s5 else s3);
          e = (if sg \<and> hd s4 = CHR ''-'' then - int (digits_value xs) else int (digits_value xs))
      in if ds = [] \<or> (length ds > 1 \<and> hd ds = CHR ''0'') \<or> (frac \<and> fs = []) \<or> (ex \<and> xs = [])
         then None
         else Some (double (decimal neg ds fs * power_of 10 e), s6))"

text \<open>The literals \<^verbatim>\<open>null\<close>, \<^verbatim>\<open>true\<close> and \<^verbatim>\<open>false\<close>.\<close>

definition literal :: "string \<Rightarrow> json \<Rightarrow> string \<Rightarrow> (json \<times> string) option" where
  "literal w v s = (if take (length w) s = w then Some (v, drop (length w) s) else None)"

text \<open>
  The object of a list of members: each member is created as a property in turn, so a
  repeated key keeps its first place with its last value, and array indices come first.
\<close>

definition build :: "(string \<times> 'a) list \<Rightarrow> 'a obj" where
  "build ms = foldl (\<lambda>acc m. obj_set acc (fst m) (snd m)) [] ms"

text \<open>
  Values, the elements of an array after its bracket, and the members of an object after
  its brace. The first argument bounds the depth of the recursion.
\<close>

fun parse_value :: "nat \<Rightarrow> string \<Rightarrow> (json \<times> string) option"
  and parse_elements :: "nat \<Rightarrow> string \<Rightarrow> (json list \<times> string) option"
  and parse_members :: "nat \<Rightarrow> string \<Rightarrow> ((string \<times> json) list \<times> string) option"
where
  "parse_value 0 s = None"
| "parse_value (Suc n) s =
     (case s of
        [] \<Rightarrow> None
      | c # t \<Rightarrow>
          if c = CHR ''n'' then literal ''null'' JNull s
          else if c = CHR ''t'' then literal ''true'' (JBool True) s
          else if c = CHR ''f'' then literal ''false'' (JBool False) s
          else if c = CHR 0x22 then map_option (\<lambda>(x, r). (JStr x, r)) (parse_chars t)
          else if c = CHR ''['' then
            (case skip_ws t of
               [] \<Rightarrow> None
             | d # u \<Rightarrow>
                 if d = CHR '']'' then Some (JArr [], u)
                 else map_option (\<lambda>(xs, r). (JArr xs, r)) (parse_elements n (d # u)))
          else if c = CHR ''{'' then
            (case skip_ws t of
               [] \<Rightarrow> None
             | d # u \<Rightarrow>
                 if d = CHR ''}'' then Some (JObj [], u)
                 else map_option (\<lambda>(ms, r). (JObj (build ms), r)) (parse_members n (d # u)))
          else map_option (\<lambda>(x, r). (JNum x, r)) (parse_number s))"
| "parse_elements 0 s = None"
| "parse_elements (Suc n) s =
     (case parse_value n s of
        None \<Rightarrow> None
      | Some (v, r) \<Rightarrow>
          (case skip_ws r of
             [] \<Rightarrow> None
           | c # t \<Rightarrow>
               if c = CHR '','' then
                 map_option (\<lambda>(vs, r'). (v # vs, r')) (parse_elements n (skip_ws t))
               else if c = CHR '']'' then Some ([v], t)
               else None))"
| "parse_members 0 s = None"
| "parse_members (Suc n) s =
     (case s of
        [] \<Rightarrow> None
      | q # t \<Rightarrow>
          if q \<noteq> CHR 0x22 then None
          else
            (case parse_chars t of
               None \<Rightarrow> None
             | Some (k, r) \<Rightarrow>
                 (case skip_ws r of
                    [] \<Rightarrow> None
                  | c # u \<Rightarrow>
                      if c \<noteq> CHR '':'' then None
                      else
                        (case parse_value n (skip_ws u) of
                           None \<Rightarrow> None
                         | Some (v, r1) \<Rightarrow>
                             (case skip_ws r1 of
                                [] \<Rightarrow> None
                              | e # w \<Rightarrow>
                                  if e = CHR '','' then
                                    map_option (\<lambda>(ms, r2). ((k, v) # ms, r2))
                                      (parse_members n (skip_ws w))
                                  else if e = CHR ''}'' then Some ([(k, v)], w)
                                  else None)))))"

text \<open>The whole text is one value; the length of the text bounds the recursion.\<close>

definition JSON_parse :: "string \<Rightarrow> json option" where
  "JSON_parse s =
     (case parse_value (length s) (skip_ws s) of
        None \<Rightarrow> None
      | Some (v, r) \<Rightarrow> if skip_ws r = [] then Some v else None)"

text \<open>
  What reading the text of a value gives. A number is read from its text, a value that is
  not finite is printed as \<^verbatim>\<open>null\<close>, and an object is built from its members.
\<close>

definition reread :: "rat \<Rightarrow> jsnum" where
  "reread q = (case parse_number (num_text (Fin q)) of None \<Rightarrow> NaN | Some (x, r) \<Rightarrow> x)"

fun reparse :: "json \<Rightarrow> json" where
  "reparse JNull = JNull"
| "reparse (JBool b) = JBool b"
| "reparse (JNum n) = (case n of Fin q \<Rightarrow> JNum (reread q) | _ \<Rightarrow> JNull)"
| "reparse (JStr s) = JStr s"
| "reparse (JArr xs) = JArr (map reparse xs)"
| "reparse (JObj ps) = JObj (build (map (\<lambda>p. (fst p, reparse (snd p))) ps))"

text \<open>What may follow the text of a number: no digit, point or exponent mark.\<close>

definition after_number :: "string \<Rightarrow> bool" where
  "after_number rest =
     (rest = [] \<or> (\<not> is_digit (hd rest) \<and> hd rest \<noteq> CHR ''.'' \<and> hd rest \<noteq> CHR ''e''
                    \<and> hd rest \<noteq> CHR ''E''))"

text \<open>The calls the parser makes on the text of a value.\<close>

fun weight :: "json \<Rightarrow> nat" where
  "weight (JArr xs) = Suc (sum_list (map (\<lambda>x. Suc (weight x)) xs))"
| "weight (JObj ps) = Suc (sum_list (map (\<lambda>p. Suc (weight (snd p))) ps))"
| "weight v = 1"

text \<open>The first character of the text of a value.\<close>

definition value_start :: "char \<Rightarrow> bool" where
  "value_start c = (\<not> is_ws c \<and> c \<noteq> CHR '']'' \<and> c \<noteq> CHR ''}'')"

text \<open>The text of a value, at any indentation and before any rest, reads as that value.\<close>

definition reads :: "json \<Rightarrow> bool" where
  "reads v \<longleftrightarrow>
     (\<forall>fuel ind rest. weight v \<le> fuel \<longrightarrow> list_all is_ws ind \<longrightarrow> after_number rest \<longrightarrow>
        parse_value fuel (stringify ind v @ rest) = Some (reparse v, rest))"

text \<open>
  A value that reads back as itself: its numbers are finite and their text reads as the
  same number (a check by computation: the digits of a double are chosen so that they
  read as that double), and its objects have their properties in the order an object
  enumerates them, as every object of the runtime has them.
\<close>

definition canonical :: "(string \<times> 'a) list \<Rightarrow> bool" where
  "canonical ps = (build ps = ps)"

fun json_ok :: "json \<Rightarrow> bool" where
  "json_ok (JNum n) = (case n of Fin q \<Rightarrow> reread q = Fin q | _ \<Rightarrow> False)"
| "json_ok (JArr xs) = list_all json_ok xs"
| "json_ok (JObj ps) = (canonical ps \<and> list_all (\<lambda>p. json_ok (snd p)) ps)"
| "json_ok v = True"

subsection \<open>The enhanced exporter\<close>

record metadata =
  exported_by :: string
  export_date :: string
  total_assessments :: nat
  data_quality_score :: jsnum
  analysis_version :: string

record strategy_summary =
  total_strategies :: nat
  average_effectiveness :: jsnum
  sectors_covered :: nat

record factor_analysis =
  total_factors :: nat
  high_impact_factors :: nat
  average_frequency :: jsnum

text \<open>
  The object \<^verbatim>\<open>exportData\<close> that the exporter assembles: each of its six keys is there or
  not, and the spreads create them in this order.
\<close>

record export_data =
  risk_assessments :: "row list option"
  metadata :: "metadata option"
  mitigation_strategies :: "strategy list option"
  strategy_summary :: "strategy_summary option"
  risk_factors :: "factor list option"
  factor_analysis :: "factor_analysis option"

definition empty_export :: export_data where
  "empty_export =
     \<lparr>risk_assessments = None, metadata = None, mitigation_strategies = None,
      strategy_summary = None, risk_factors = None, factor_analysis = None\<rparr>"

text \<open>
  The assembly of \<^verbatim>\<open>exportData\<close>; \<open>now\<close> is the text \<^verbatim>\<open>new Date().toISOString()\<close> returns
  when the metadata block is built.
\<close>

definition assemble :: "reports \<Rightarrow> string \<Rightarrow> string \<Rightarrow> export_data" where
  "assemble st dataType now =
     (let d0 = empty_export;
          d1 = (if dataType = ''all'' \<or> dataType = ''assessments''
                then d0\<lparr>risk_assessments := Some (assessments st),
                         metadata := Some
                           \<lparr>exported_by = ''AI Risk Assessment Dashboard'',
                            export_date = now,
                            total_assessments = length (assessments st),
                            data_quality_score = double (92 / 10),
                            analysis_version = ''v2.1''\<rparr>\<rparr>
                else d0);
          d2 = (if dataType = ''all'' \<or> dataType = ''strategies''
                then d1\<lparr>mitigation_strategies := Some (strategies st),
                         strategy_summary := Some
                           \<lparr>total_strategies = length (strategies st),
                            average_effectiveness = avgEffectiveness_of (strategies st),
                            sectors_covered =
                              length (remdups (map strategy_risk_type (strategies st)))\<rparr>\<rparr>
                else d1);
          d3 = (if dataType = ''all'' \<or> dataType = ''factors''
                then d2\<lparr>risk_factors := Some (riskFactors st),
                         factor_analysis := Some
                           \<lparr>total_factors = length (riskFactors st),
                            high_impact_factors =
                              length (filter (\<lambda>f. impact_level f = Some ''Critical'')
                                        (riskFactors st)),
                            average_frequency =
                              average (map (\<lambda>f. column_number (frequency_percentage f))
                                         (riskFactors st))\<rparr>\<rparr>
                else d2)
      in d3)"

text \<open>The JSON value of the assembled object, as \<^verbatim>\<open>JSON.stringify\<close> walks it.\<close>

definition nat_json :: "nat \<Rightarrow> json" where
  "nat_json n = JNum (Fin (of_nat n))"

definition text_json :: "string option \<Rightarrow> json" where
  "text_json v = (case v of None \<Rightarrow> JNull | Some s \<Rightarrow> JStr s)"

definition strategy_json :: "strategy \<Rightarrow> json" where
  "strategy_json s =
     JObj [(''id'', JStr (strategy_id s)),
           (''risk_type'', JStr (strategy_risk_type s)),
           (''severity'', JStr (strategy_severity s)),
           (''strategy_title'', JStr (strategy_title s)),
           (''strategy_description'', JStr (strategy_description s)),
           (''implementation_difficulty'', text_json (implementation_difficulty s)),
           (''effectiveness_score'',
              (case effectiveness_score s of None \<Rightarrow> JNull | Some n \<Rightarrow> JNum (double (of_int n)))),
           (''created_at'', JStr (strategy_created_at s))]"

definition factor_json :: "factor \<Rightarrow> json" where
  "factor_json f =
     JObj [(''id'', JStr (factor_id f)),
           (''risk_type'', JStr (factor_risk_type f)),
           (''factor_name'', JStr (factor_name f)),
           (''impact_level'', text_json (impact_level f)),
           (''frequency_percentage'',
              (case frequency_percentage f of None \<Rightarrow> JNull | Some q \<Rightarrow> JNum (double q))),
           (''description'', text_json (factor_description f)),
           (''created_at'', JStr (factor_created_at f))]"

definition metadata_json :: "metadata \<Rightarrow> json" where
  "metadata_json m =
     JObj [(''exported_by'', JStr (exported_by m)),
           (''export_date'', JStr (export_date m)),
           (''total_assessments'', nat_json (total_assessments m)),
           (''data_quality_score'', JNum (data_quality_score m)),
           (''analysis_version'', JStr (analysis_version m))]"

definition strategy_summary_json :: "strategy_summary \<Rightarrow> json" where
  "strategy_summary_json s =
     JObj [(''total_strategies'', nat_json (total_strategies s)),
           (''average_effectiveness'', JNum (average_effectiveness s)),
           (''sectors_covered'', nat_json (sectors_covered s))]"

definition factor_analysis_json :: "factor_analysis \<Rightarrow> json" where
  "factor_analysis_json a =
     JObj [(''total_factors'', nat_json (total_factors a)),
           (''high_impact_factors'', nat_json (high_impact_factors a)),
           (''average_frequency'', JNum (average_frequency a))]"

definition entry :: "string \<Rightarrow> ('a \<Rightarrow> json) \<Rightarrow> 'a option \<Rightarrow> (string \<times> json) list" where
  "entry k to_json v = (case v of None \<Rightarrow> [] | Some x \<Rightarrow> [(k, to_json x)])"

definition export_json :: "export_data \<Rightarrow> json" where
  "export_json d =
     JObj (entry ''risk_assessments'' (\<lambda>rs. JArr (map JObj rs)) (risk_assessments d)
         @ entry ''metadata'' metadata_json (metadata d)
         @ entry ''mitigation_strategies'' (\<lambda>ss. JArr (map strategy_json ss)) (mitigation_strategies d)
         @ entry ''strategy_summary'' strategy_summary_json (strategy_summary d)
         @ entry ''risk_factors'' (\<lambda>fs. JArr (map factor_json fs)) (risk_factors d)
         @ entry ''factor_analysis'' factor_analysis_json (factor_analysis d))"

text \<open>
  \<^verbatim>\<open>convertToCSV\<close>: the keys of the first record, then each record's values between double
  quotes; the empty text when the object has no \<^verbatim>\<open>risk_assessments\<close> (an array, even an
  empty one, is truthy).
\<close>

definition convertToCSV :: "export_data \<Rightarrow> string" where
  "convertToCSV data =
     (case risk_assessments data of
        None \<Rightarrow> ''''
      | Some items \<Rightarrow>
          (let headers = join '','' (map fst (case items of [] \<Rightarrow> [] | r # _ \<Rightarrow> r));
               rows = join [CHR 0x0A]
                        (map (\<lambda>item. join '',''
                                (map (\<lambda>val. [CHR 0x22] @ js_string val @ [CHR 0x22])
                                   (map snd item)))
                           items)
           in headers @ [CHR 0x0A] @ rows))"

text \<open>
  What an action does to the page, in order. A notification is named by its title and
  carries the values its description interpolates.
\<close>

datatype toast =
    No_Data
  | No_Data_Available
  | Export_Complete string
  | Export_Completed string string
  | Export_Failed
  | Risk_Assessment_Submitted bool
  | Submission_Error

record download =
  filename :: string
  mime :: string
  content :: string

datatype effect = Toast toast | Download download | SetIsExporting bool

text \<open>
  \<^verbatim>\<open>exportData(format, dataType)\<close> of \<^verbatim>\<open>EnhancedReportsSection\<close>. The clock is read twice:
  \<open>now1\<close> and \<open>now2\<close> are the texts of \<^verbatim>\<open>new Date().toISOString()\<close> for the file name
  and for the metadata. Nothing in the \<^verbatim>\<open>try\<close> block throws on records that are objects,
  so the \<^verbatim>\<open>catch\<close> branch (\<open>Export_Failed\<close>) is not entered.
\<close>

definition EnhancedReportsSection_exportData ::
  "reports \<Rightarrow> string \<Rightarrow> string \<Rightarrow> string \<Rightarrow> string \<Rightarrow> effect list" where
  "EnhancedReportsSection_exportData st format dataType now1 now2 =
     (if length (assessments st) = 0 \<and> length (strategies st) = 0 \<and> length (riskFactors st) = 0
      then [Toast No_Data_Available]
      else
        (let exportData = assemble st dataType now2;
             timestamp = takeWhile (\<lambda>c. c \<noteq> CHR ''T'') now1;
             dataStr = (if format = ''json'' then JSON_stringify (export_json exportData)
                        else if format = ''csv'' then convertToCSV exportData
                        else JSON_stringify (export_json exportData));
             dataBlob = \<lparr>filename = ''ai-risk-comprehensive-'' @ dataType @ ''-'' @ timestamp
                                     @ ''.'' @ format,
                         mime = (if format = ''json'' then ''application/json'' else ''text/csv''),
                         content = dataStr\<rparr>
         in [SetIsExporting True, Download dataBlob, Toast (Export_Completed dataType format),
             SetIsExporting False]))"

subsection \<open>The exporter over local storage\<close>

definition ReportsSection_exportData :: "row list \<Rightarrow> string \<Rightarrow> effect list" where
  "ReportsSection_exportData rows format =
     (if length rows = 0 then [Toast No_Data]
      else
        (let dataStr =
               (if format = ''json'' then JSON_stringify (JArr (map JObj rows))
                else join [CHR 0x0A]
                       (map (\<lambda>a. to_text (field a ''timestamp'') @ '','' @ to_text (field a ''aiTool'')
                                  @ '','' @ to_text (field a ''riskType'') @ '',''
                                  @ to_text (field a ''severity'')) rows));
             dataBlob = \<lparr>filename = ''ai-risk-assessments.'' @ format,
                         mime = (if format = ''json'' then ''application/json'' else ''text/csv''),
                         content = dataStr\<rparr>
         in [Download dataBlob, Toast (Export_Complete format)]))"

text \<open>The files and the notifications of a run.\<close>

fun downloads :: "effect list \<Rightarrow> download list" where
  "downloads [] = []"
| "downloads (Download d # es) = d # downloads es"
| "downloads (_ # es) = downloads es"



subsection \<open>Example data\<close>

text \<open>A strategy of the seed data, and views that loaded parts of the store.\<close>

definition example_strategy :: strategy where
  "example_strategy =
     \<lparr>strategy_id = ''7d9f0c1e-0000-4000-8000-000000000001'',
      strategy_risk_type = ''Trust Erosion'',
      strategy_severity = ''High'',
      strategy_title = ''Transparency Reports'',
      strategy_description =
        ''Implement regular transparency reports showing AI decision-making processes'',
      implementation_difficulty = Some ''Medium'',
      effectiveness_score = Some 8,
      strategy_created_at = ''2025-06-27T11:57:15.000+00:00''\<rparr>"

definition only_strategies :: reports where
  "only_strategies = \<lparr>assessments = [], strategies = [example_strategy], riskFactors = []\<rparr>"

definition only_assessments :: reports where
  "only_assessments =
     \<lparr>assessments = [created ''2025-01-14T00:00:00.000Z''], strategies = [], riskFactors = []\<rparr>"

definition both_loaded :: reports where
  "both_loaded =
     \<lparr>assessments = [created ''2025-01-14T00:00:00.000Z''], strategies = [example_strategy],
      riskFactors = []\<rparr>"

text \<open>
  A record of the local store that holds a number, the double nearest to \<open>10^-7\<close>.
\<close>

definition measured :: row where
  "measured =
     [(''timestamp'', JStr ''2025-01-14T00:00:00.000Z''),
      (''aiTool'', JStr ''ChatGPT/OpenAI''),
      (''riskType'', JStr ''Trust Erosion''),
      (''severity'', JStr ''High''),
      (''weight'', JNum (double (1 / 10000000)))]"

text \<open>Whether a view has loaded anything: the negation of the exporter's guard.\<close>

definition loaded :: "reports \<Rightarrow> bool" where
  "loaded st = (assessments st \<noteq> [] \<or> strategies st \<noteq> [] \<or> riskFactors st \<noteq> [])"

section \<open>The form\<close>

record formData =
  aiTool :: string
  riskType :: string
  severity :: string
  description :: string
  email :: string
  reportRequested :: bool

record form =
  formData :: formData
  isSubmitting :: bool

definition initial_formData :: formData where
  "initial_formData =
     \<lparr>aiTool = '''', riskType = '''', severity = '''', description = '''', email = '''',
      reportRequested = False\<rparr>"

text \<open>The row \<^verbatim>\<open>handleSubmit\<close> passes to \<^verbatim>\<open>supabase.from('risk_assessments').insert\<close>.\<close>

definition insert_row :: "formData \<Rightarrow> row" where
  "insert_row fd =
     [(''ai_tool'', JStr (aiTool fd)),
      (''risk_type'', JStr (riskType fd)),
      (''severity'', JStr (severity fd)),
      (''description'', JStr (description fd)),
      (''email'', JStr (email fd)),
      (''report_requested'', JBool (reportRequested fd))]"

record outcome =
  form_after :: form
  inserts :: "row list"
  shown :: "toast list"

text \<open>
  \<^verbatim>\<open>handleSubmit\<close>; \<open>rejects\<close> is the store: whether its answer to the insert of a row carries
  an error. The handler calls the store whatever the fields hold.
\<close>

definition handleSubmit :: "(row \<Rightarrow> bool) \<Rightarrow> form \<Rightarrow> outcome" where
  "handleSubmit rejects st =
     (let r = insert_row (formData st) in
      if rejects r
      then \<lparr>form_after = st\<lparr>isSubmitting := False\<rparr>, inserts = [r], shown = [Submission_Error]\<rparr>
      else \<lparr>form_after = \<lparr>formData = initial_formData, isSubmitting = False\<rparr>,
            inserts = [r],
            shown = [Risk_Assessment_Submitted (reportRequested (formData st))]\<rparr>)"

text \<open>
  The \<^verbatim>\<open>disabled\<close> attribute of the submit button:
  \<^verbatim>\<open>!formData.aiTool || !formData.riskType || !formData.severity || isSubmitting\<close>.
\<close>

definition submit_disabled :: "form \<Rightarrow> bool" where
  "submit_disabled st =
     (aiTool (formData st) = '''' \<or> riskType (formData st) = '''' \<or> severity (formData st) = ''''
      \<or> isSubmitting st)"

text \<open>
  A submission attempt by the user. The form has one submit button and \<^verbatim>\<open>handleSubmit\<close> is
  its \<^verbatim>\<open>onSubmit\<close>; a disabled submit button cannot be activated and also blocks the
  implicit submission from a text field, so no submit event reaches the handler then.
  Nor does it when the browser finds the text of the \<^verbatim>\<open>type="email"\<close> field invalid;
  \<open>valid_email\<close> is that check of the browser.
\<close>

definition submit_attempt :: "(string \<Rightarrow> bool) \<Rightarrow> (row \<Rightarrow> bool) \<Rightarrow> form \<Rightarrow> outcome" where
  "submit_attempt valid_email rejects st =
     (if submit_disabled st then \<lparr>form_after = st, inserts = [], shown = []\<rparr>
      else if \<not> valid_email (email (formData st))
      then \<lparr>form_after = st, inserts = [], shown = []\<rparr>
      else handleSubmit rejects st)"

text \<open>A form in which the tool has not been chosen yet.\<close>

definition form_without_tool :: form where
  "form_without_tool =
     \<lparr>formData = \<lparr>aiTool = '''', riskType = ''Misinformation'', severity = ''High'',
                  description = ''Invented a court ruling'', email = '''',
                  reportRequested = False\<rparr>,
      isSubmitting = False\<rparr>"

section \<open>Properties of the count objects\<close>

subsection \<open>First-encounter order\<close>

lemma set_first_seen [simp]: "set (first_seen xs) = set xs"
  by (induction xs) auto

lemma distinct_first_seen [simp]: "distinct (first_seen xs)"
  by (induction xs) auto




subsection \<open>Writing a property\<close>




















subsection \<open>The reduce\<close>

lemma count_step_Some:
  "count_step f (Some a) r =
     (if inherited (bucket f r) then None
      else Some (obj_set a (bucket f r) (obj_get0 a (bucket f r) + 1)))"
  by (simp add: count_step_def bucket_def Let_def)

lemma foldl_count_None: "foldl (count_step f) None xs = None"
  by (induction xs) (simp_all add: count_step_def)


lemma foldl_count_inherited:
  assumes "foldl (count_step f) (Some a) xs = Some acc"
  shows "\<forall>r \<in> set xs. \<not> inherited (bucket f r)"
  using assms
  by (induction xs arbitrary: a) (auto simp: count_step_Some foldl_count_None split: if_splits)





section \<open>Counting by severity\<close>





section \<open>The most reported tools\<close>

subsection \<open>The sort\<close>


lemma js_sort_Nil [simp]: "js_sort cmp [] = []"
  by (simp add: js_sort_def)













subsection \<open>The count object as a grouping\<close>





subsection \<open>The chart\<close>






section \<open>The weekly count\<close>





section \<open>Rounding to a double\<close>

subsection \<open>Powers and exponents\<close>

lemma pw_power: "pw x n = x ^ nat n"
proof (induction x n rule: pw.induct)
  case (1 x n)
  show ?case
  proof (cases "n \<le> 0")
    case True
    then show ?thesis by (subst pw.simps) simp
  next
    case False
    then have h: "pw x (n div 2) = x ^ nat (n div 2)" using 1 by simp
    have e: "even n \<Longrightarrow> nat n = nat (n div 2) + nat (n div 2)"
      using False by (auto elim!: evenE simp: nat_add_distrib)
    have o: "odd n \<Longrightarrow> nat n = Suc (nat (n div 2) + nat (n div 2))"
      using False by (auto elim!: oddE simp: nat_add_distrib)
    show ?thesis
      using False by (subst pw.simps) (auto simp: h Let_def e o power_add)
  qed
qed

lemma power_of_powi: "power_of x e = x powi e"
  by (simp add: power_of_def pw_power power_int_def field_simps power_inverse)

lemma ilen_bounds:
  "0 < a \<Longrightarrow> 1 < b \<Longrightarrow> 1 \<le> ilen b a \<and> b ^ nat (ilen b a - 1) \<le> a \<and> a < b ^ nat (ilen b a)"
proof (induction b a rule: ilen.induct)
  case (1 b a)
  have s: "ilen b a = 1 + ilen b (a div b)" using 1(2,3) by (subst ilen.simps) simp
  show ?case
  proof (cases "a div b = 0")
    case True
    then have "ilen b (a div b) = 0" by (subst ilen.simps) simp
    moreover have "a < b" using True 1(2,3) by (simp add: div_pos_pos_trivial zdiv_eq_0_iff)
    ultimately show ?thesis using 1(2) by (simp add: s)
  next
    case False
    then have p: "0 < a div b" using 1(2,3) by (simp add: pos_imp_zdiv_pos_iff zdiv_eq_0_iff)
    let ?L = "ilen b (a div b)"
    from 1(1) p 1(2,3) have ih: "1 \<le> ?L" "b ^ nat (?L - 1) \<le> a div b" "a div b < b ^ nat ?L"
      by auto
    have n1: "nat ?L = Suc (nat (?L - 1))" and n2: "nat (1 + ?L) = Suc (nat ?L)"
      using ih(1) by auto
    have dm: "b * (a div b) + a mod b = a" "0 \<le> a mod b" "a mod b < b"
      using 1(3) by simp_all
    have "b * b ^ nat (?L - 1) \<le> b * (a div b)" using ih(2) 1(3) by simp
    also have "\<dots> \<le> a" using dm by linarith
    finally have lo: "b ^ nat ?L \<le> a" by (subst n1) simp
    have "a div b + 1 \<le> b ^ nat ?L" using ih(3) by simp
    then have "b * (a div b + 1) \<le> b * b ^ nat ?L" using 1(3) by simp
    moreover have "a < b * (a div b) + b" using dm by linarith
    then have "a < b * (a div b + 1)" by (simp add: distrib_left)
    ultimately have hi: "a < b ^ nat (1 + ?L)" by (simp add: n2)
    show ?thesis using ih(1) lo hi by (simp add: s)
  qed
qed

lemma ilog_bounds:
  assumes x: "0 < x" and b: "1 < b"
  shows "of_int b powi (ilog b x) \<le> x" and "x < of_int b powi (ilog b x + 1)"
proof -
  obtain n d where nd: "quotient_of x = (n, d)" by (cases "quotient_of x")
  then have d: "0 < d" by (rule quotient_of_denom_pos)
  have xe: "x = of_int n / of_int d" using nd by (rule quotient_of_div)
  have n: "0 < n" using x d xe by (simp add: zero_less_divide_iff)
  let ?B = "of_int b :: rat"
  have B: "1 < ?B" "0 < ?B" "?B \<noteq> 0" using b by simp_all
  from ilen_bounds [OF n b] have ln: "1 \<le> ilen b n" "b ^ nat (ilen b n - 1) \<le> n" "n < b ^ nat (ilen b n)"
    by auto
  from ilen_bounds [OF d b] have ld: "1 \<le> ilen b d" "b ^ nat (ilen b d - 1) \<le> d" "d < b ^ nat (ilen b d)"
    by auto
  have pn: "?B powi (ilen b n - 1) \<le> of_int n" "of_int n < ?B powi (ilen b n)"
    using ln by (simp_all add: power_int_def flip: of_int_power) 
  have pd: "?B powi (ilen b d - 1) \<le> of_int d" "of_int d < ?B powi (ilen b d)"
    using ld by (simp_all add: power_int_def flip: of_int_power)
  let ?e = "ilen b n - ilen b d"
  have up: "x < ?B powi (?e + 1)"
  proof -
    have "x * of_int d = of_int n" using d by (simp add: xe)
    also have "\<dots> < ?B powi (ilen b n)" by (rule pn)
    also have "\<dots> = ?B powi (?e + 1) * ?B powi (ilen b d - 1)"
      using B by (simp flip: power_int_add)
    also have "\<dots> \<le> ?B powi (?e + 1) * of_int d"
      using pd(1) B by (intro mult_left_mono) simp_all
    finally show ?thesis using d by simp
  qed
  have lo: "?B powi (?e - 1) \<le> x"
  proof -
    have "?B powi (?e - 1) * of_int d \<le> ?B powi (?e - 1) * ?B powi (ilen b d)"
      using pd(2) B by (intro mult_left_mono) simp_all
    also have "\<dots> = ?B powi (ilen b n - 1)" using B by (simp flip: power_int_add)
    also have "\<dots> \<le> of_int n" by (rule pn)
    also have "\<dots> = x * of_int d" using d by (simp add: xe)
    finally show ?thesis using d by simp
  qed
  have mono: "?B powi (?e - 1 + 1) \<le> ?B powi (?e + 1)"
    using B by (intro power_int_increasing) simp_all
  show "of_int b powi (ilog b x) \<le> x"
    using lo by (simp add: ilog_def nd Let_def power_of_powi)
  show "x < of_int b powi (ilog b x + 1)"
    using up by (auto simp: ilog_def nd Let_def power_of_powi not_le)
qed

subsection \<open>The nearest integer\<close>





subsection \<open>The nearest double\<close>





section \<open>The share of critical records\<close>









text \<open>
  The text is that of the double, not of the exact percentage: \<open>23\<close> critical records of
  \<open>80\<close> are \<open>28.75\<close> percent, the double is a little below, and its text is \<^verbatim>\<open>28.7\<close>.
\<close>

lemma critical_share_rounding:
  "toFixed1 (critical_share [(''Critical'', 23), (''Low'', 57)] 80) = ''28.7''
   \<and> toFixed1 (Fin (100 * 23 / 80)) = ''28.8''"
  by code_simp


section \<open>The exporters\<close>

lemma export_run:
  assumes "loaded st"
  shows "EnhancedReportsSection_exportData st format dataType now1 now2 =
     [SetIsExporting True,
      Download \<lparr>filename = ''ai-risk-comprehensive-'' @ dataType @ ''-''
                    @ takeWhile (\<lambda>c. c \<noteq> CHR ''T'') now1 @ ''.'' @ format,
        mime = (if format = ''json'' then ''application/json'' else ''text/csv''),
        content = (if format = ''csv'' then convertToCSV (assemble st dataType now2)
                   else JSON_stringify (export_json (assemble st dataType now2)))\<rparr>,
      Toast (Export_Completed dataType format),
      SetIsExporting False]"
  using assms by (auto simp: EnhancedReportsSection_exportData_def loaded_def Let_def)

lemma export_guard:
  assumes "\<not> loaded st"
  shows "EnhancedReportsSection_exportData st format dataType now1 now2 = [Toast No_Data_Available]"
  using assms by (simp add: EnhancedReportsSection_exportData_def loaded_def)

lemma assemble_assessments:
  "risk_assessments (assemble st dataType now) =
     (if dataType = ''all'' \<or> dataType = ''assessments'' then Some (assessments st) else None)"
  by (simp add: assemble_def empty_export_def Let_def)

lemma assemble_strategies:
  "mitigation_strategies (assemble st dataType now) =
     (if dataType = ''all'' \<or> dataType = ''strategies'' then Some (strategies st) else None)"
  by (simp add: assemble_def empty_export_def Let_def)

lemma assemble_factors:
  "risk_factors (assemble st dataType now) =
     (if dataType = ''all'' \<or> dataType = ''factors'' then Some (riskFactors st) else None)"
  by (simp add: assemble_def empty_export_def Let_def)

lemma assemble_clock:
  assumes "dataType \<noteq> ''all''" "dataType \<noteq> ''assessments''"
  shows "assemble st dataType now = assemble st dataType now'"
  using assms by (simp add: assemble_def Let_def)

lemma csv_clock: "convertToCSV (assemble st dataType now) = convertToCSV (assemble st dataType now')"
  by (simp add: convertToCSV_def assemble_assessments)

subsection \<open>Nothing to export\<close>




subsection \<open>CSV without assessments\<close>

text \<open>
  C10. When something is loaded, so that an object is assembled, a CSV export whose data
  type is neither \<^verbatim>\<open>all\<close> nor \<^verbatim>\<open>assessments\<close> assembles an object without
  \<^verbatim>\<open>risk_assessments\<close>: the payload is the empty text, it is downloaded as a CSV file, and
  the notification is that of success, not \<^verbatim>\<open>No Data Available\<close>.
\<close>
theorem csv_without_assessments:
  assumes "loaded st" "dataType \<noteq> ''all''" "dataType \<noteq> ''assessments''"
  shows "EnhancedReportsSection_exportData st ''csv'' dataType now1 now2 =
     [SetIsExporting True,
      Download \<lparr>filename = ''ai-risk-comprehensive-'' @ dataType @ ''-''
                    @ takeWhile (\<lambda>c. c \<noteq> CHR ''T'') now1 @ ''.csv'',
                mime = ''text/csv'', content = ''''\<rparr>,
      Toast (Export_Completed dataType ''csv''),
      SetIsExporting False]"
  using assms(2,3) by (simp add: export_run [OF assms(1)] convertToCSV_def assemble_assessments)

text \<open>The theorem on the CSV export of the strategies.\<close>

theorem csv_without_assessments_witness:
  "EnhancedReportsSection_exportData only_strategies ''csv'' ''strategies''
      ''2025-01-15T10:30:00.000Z'' ''2025-01-15T10:30:00.001Z'' =
     [SetIsExporting True,
      Download \<lparr>filename = ''ai-risk-comprehensive-strategies-2025-01-15.csv'',
                mime = ''text/csv'', content = ''''\<rparr>,
      Toast (Export_Completed ''strategies'' ''csv''),
      SetIsExporting False]"
proof -
  have l: "loaded only_strategies" by (simp add: loaded_def only_strategies_def)
  from csv_without_assessments [OF l, of "''strategies''" "''2025-01-15T10:30:00.000Z''"
      "''2025-01-15T10:30:00.001Z''"]
  show ?thesis by simp
qed


subsection \<open>The file\<close>




subsection \<open>The payload and the clock\<close>

text \<open>
  C3, as the code has it. For one view, format and data type, the payload of the enhanced
  exporter does not depend on the clock reading that dates the file name; it does not
  depend on the reading that dates the metadata either when the format is \<^verbatim>\<open>csv\<close> or the
  data type is neither \<^verbatim>\<open>all\<close> nor \<^verbatim>\<open>assessments\<close>. (The exporter over local storage reads
  no clock: its payload is a function of the records and the format.)
\<close>
theorem export_payload_clock:
  "map content (downloads (EnhancedReportsSection_exportData st format dataType now1 now2))
     = map content (downloads (EnhancedReportsSection_exportData st format dataType now1' now2))
   \<and> (format = ''csv'' \<or> (dataType \<noteq> ''all'' \<and> dataType \<noteq> ''assessments'') \<longrightarrow>
        map content (downloads (EnhancedReportsSection_exportData st format dataType now1 now2))
          = map content (downloads (EnhancedReportsSection_exportData st format dataType now1' now2')))"
proof (cases "loaded st")
  case True
  have "convertToCSV (assemble st dataType now2) = convertToCSV (assemble st dataType now2')"
    by (rule csv_clock)
  moreover have "assemble st dataType now2 = assemble st dataType now2'"
    if "dataType \<noteq> ''all''" "dataType \<noteq> ''assessments''"
    using that by (rule assemble_clock)
  ultimately show ?thesis by (auto simp: export_run [OF True])
next
  case False
  then show ?thesis by (simp add: export_guard)
qed

text \<open>The theorem on two JSON exports of the strategies, a day apart.\<close>

theorem export_payload_clock_witness:
  "map content (downloads (EnhancedReportsSection_exportData both_loaded ''json'' ''strategies''
       ''2025-01-15T10:30:00.000Z'' ''2025-01-15T10:30:00.001Z''))
     = map content (downloads (EnhancedReportsSection_exportData both_loaded ''json'' ''strategies''
       ''2025-01-16T08:00:00.000Z'' ''2025-01-16T08:00:00.002Z''))"
  using export_payload_clock [where st = both_loaded and format = "''json''"
      and dataType = "''strategies''" and ?now1.0 = "''2025-01-15T10:30:00.000Z''"
      and ?now2.0 = "''2025-01-15T10:30:00.001Z''" and now1' = "''2025-01-16T08:00:00.000Z''"
      and now2' = "''2025-01-16T08:00:00.002Z''", THEN conjunct2]
  by simp


text \<open>
  C3 as stated fails: two JSON exports of the same assessments a millisecond apart differ,
  in \<^verbatim>\<open>metadata.export_date\<close>.
\<close>

lemma nine_two: "num_text (double (92 / 10)) = ''9.2''"
  by code_simp

lemma one_text: "num_text (Fin 1) = ''1''"
  by code_simp

lemma quote_plain:
  "quote ''risk_assessments'' = CHR 0x22 # ''risk_assessments'' @ [CHR 0x22]"
  "quote ''metadata'' = CHR 0x22 # ''metadata'' @ [CHR 0x22]"
  by (simp_all add: quote_def escape_char_def)

theorem export_payload_counterexample:
  "map content (downloads (EnhancedReportsSection_exportData only_assessments ''json'' ''assessments''
       ''2025-01-15T10:30:00.000Z'' ''2025-01-15T10:30:00.001Z''))
   \<noteq> map content (downloads (EnhancedReportsSection_exportData only_assessments ''json'' ''assessments''
       ''2025-01-15T10:30:00.000Z'' ''2025-01-15T10:30:00.002Z''))"
  by (simp add: EnhancedReportsSection_exportData_def only_assessments_def created_def Let_def
      JSON_stringify_def export_json_def entry_def assemble_def empty_export_def metadata_json_def
      nat_json_def quote_def escape_char_def nine_two one_text)


subsection \<open>The records in a JSON export\<close>

text \<open>
  What is serialised: for any format but \<^verbatim>\<open>csv\<close> the assembled object, which holds each of
  the three record sets exactly when the data type selects it; the exporter over local
  storage serialises the array of its records.
\<close>

lemma export_json_value:
  "(loaded st \<and> format \<noteq> ''csv'' \<longrightarrow>
      map content (downloads (EnhancedReportsSection_exportData st format dataType now1 now2))
        = [JSON_stringify (export_json (assemble st dataType now2))])
   \<and> risk_assessments (assemble st dataType now2) =
       (if dataType = ''all'' \<or> dataType = ''assessments'' then Some (assessments st) else None)
   \<and> mitigation_strategies (assemble st dataType now2) =
       (if dataType = ''all'' \<or> dataType = ''strategies'' then Some (strategies st) else None)
   \<and> risk_factors (assemble st dataType now2) =
       (if dataType = ''all'' \<or> dataType = ''factors'' then Some (riskFactors st) else None)
   \<and> (dataType = ''all'' \<or> dataType = ''assessments'' \<longrightarrow>
       (\<exists>rest. export_json (assemble st dataType now2) =
          JObj ((''risk_assessments'', JArr (map JObj (assessments st))) # rest)))
   \<and> (rows \<noteq> [] \<longrightarrow>
       map content (downloads (ReportsSection_exportData rows ''json''))
         = [JSON_stringify (JArr (map JObj rows))])"
proof -
  have c1: "map content (downloads (EnhancedReportsSection_exportData st format dataType now1 now2))
        = [JSON_stringify (export_json (assemble st dataType now2))]"
    if "loaded st" "format \<noteq> ''csv''"
    using that by (simp add: export_run)
  have c5: "\<exists>rest. export_json (assemble st dataType now2) =
          JObj ((''risk_assessments'', JArr (map JObj (assessments st))) # rest)"
    if "dataType = ''all'' \<or> dataType = ''assessments''"
    using that by (simp add: export_json_def entry_def assemble_assessments)
  have c6: "map content (downloads (ReportsSection_exportData rows ''json''))
         = [JSON_stringify (JArr (map JObj rows))]" if "rows \<noteq> []"
    using that by (simp add: ReportsSection_exportData_def Let_def)
  from c1 c5 c6 show ?thesis
    by (simp add: assemble_assessments assemble_strategies assemble_factors)
qed

section \<open>Submitting the form\<close>

text \<open>The handler itself checks nothing: whenever it runs, it calls the store.\<close>

lemma handleSubmit_inserts: "inserts (handleSubmit rejects st) = [insert_row (formData st)]"
  by (simp add: handleSubmit_def Let_def)

text \<open>
  C9. While the tool, the risk type or the severity is the empty text, a submission
  attempt changes nothing: the submit button is disabled, the handler does not run, the
  store receives no insert and no notification is shown. In particular a form without a
  tool never reaches the store.
\<close>

theorem submit_requires_fields:
  assumes "aiTool (formData st) = '''' \<or> riskType (formData st) = '''' \<or> severity (formData st) = ''''"
  shows "submit_attempt valid_email rejects st = \<lparr>form_after = st, inserts = [], shown = []\<rparr>"
  using assms by (auto simp: submit_attempt_def submit_disabled_def)

text \<open>The theorem on a form whose tool is still empty.\<close>

theorem submit_requires_fields_witness:
  "submit_attempt (\<lambda>e. True) (\<lambda>r. False) form_without_tool
     = \<lparr>form_after = form_without_tool, inserts = [], shown = []\<rparr>"
proof -
  have "aiTool (formData form_without_tool) = ''''
      \<or> riskType (formData form_without_tool) = '''' \<or> severity (formData form_without_tool) = ''''"
    by (simp add: form_without_tool_def)
  then show ?thesis by (rule submit_requires_fields)
qed

section \<open>Reading a JSON text back\<close>

subsection \<open>Strings\<close>

lemma hex_value_digit: "n < 16 \<Longrightarrow> hex_value (hex_digit n) = Some n"
  by (auto simp: hex_value_def hex_digit_def Let_def)

lemma parse_escape:
  "parse_chars (escape_char c @ s) = map_option (\<lambda>(t, r). (c # t, r)) (parse_chars s)"
proof -
  let ?n = "of_char c :: nat"
  consider "?n = 34" | "?n = 92" | "?n = 8" | "?n = 9" | "?n = 10" | "?n = 12" | "?n = 13"
    | "?n < 32" "?n \<notin> {8, 9, 10, 12, 13}" | "32 \<le> ?n" "?n \<noteq> 34" "?n \<noteq> 92"
    by fastforce
  then show ?thesis
  proof cases
    case 1
    have "c = CHR 0x22" using 1 of_char_eq_iff [of c "CHR 0x22", where ?'a = nat] by simp
    then show ?thesis by (simp add: escape_char_def unescape_def)
  next
    case 2
    have "c = CHR 0x5C" using 2 of_char_eq_iff [of c "CHR 0x5C", where ?'a = nat] by simp
    then show ?thesis by (simp add: escape_char_def unescape_def)
  next
    case 3
    have "c = CHR 0x08" using 3 of_char_eq_iff [of c "CHR 0x08", where ?'a = nat] by simp
    then show ?thesis by (simp add: escape_char_def unescape_def)
  next
    case 4
    have "c = CHR 0x09" using 4 of_char_eq_iff [of c "CHR 0x09", where ?'a = nat] by simp
    then show ?thesis by (simp add: escape_char_def unescape_def)
  next
    case 5
    have "c = CHR 0x0A" using 5 of_char_eq_iff [of c "CHR 0x0A", where ?'a = nat] by simp
    then show ?thesis by (simp add: escape_char_def unescape_def)
  next
    case 6
    have "c = CHR 0x0C" using 6 of_char_eq_iff [of c "CHR 0x0C", where ?'a = nat] by simp
    then show ?thesis by (simp add: escape_char_def unescape_def)
  next
    case 7
    have "c = CHR 0x0D" using 7 of_char_eq_iff [of c "CHR 0x0D", where ?'a = nat] by simp
    then show ?thesis by (simp add: escape_char_def unescape_def)
  next
    case 8
    have hv: "hex_value (CHR ''0'') = Some 0" by (simp add: hex_value_def)
    have d: "?n div 16 < 16" "?n mod 16 < 16" using 8(1) by simp_all
    have cp: "code_point (CHR ''0'') (CHR ''0'') (hex_digit (?n div 16)) (hex_digit (?n mod 16)) = Some ?n"
      by (simp add: code_point_def hv hex_value_digit [OF d(1)] hex_value_digit [OF d(2)])
    have u: "utf8 ?n = Some [c]" using 8(1) by (simp add: utf8_def)
    have e: "escape_char c = [CHR 0x5C, CHR ''u'', CHR ''0'', CHR ''0'', hex_digit (?n div 16), hex_digit (?n mod 16)]"
      using 8 by (simp add: escape_char_def Let_def)
    show ?thesis unfolding e by (simp add: cp u)
  next
    case 9
    then have e: "escape_char c = [c]" by (simp add: escape_char_def Let_def)
    from 9 have "c \<noteq> CHR 0x22" "c \<noteq> CHR 0x5C" by auto
    with 9 show ?thesis unfolding e by simp
  qed
qed

lemma parse_quoted:
  "parse_chars (concat (map escape_char s) @ CHR 0x22 # rest) = Some (s, rest)"
  by (induction s) (simp_all add: parse_escape)

subsection \<open>Numbers\<close>

lemma of_char_digit: "d < 10 \<Longrightarrow> (of_char (digit_char d) :: nat) = 48 + d"
  by (simp add: digit_char_def)

lemma is_digit_digit_char: "d < 10 \<Longrightarrow> is_digit (digit_char d)"
  by (simp add: is_digit_def of_char_digit)

lemma digit_char_zero: "d < 10 \<Longrightarrow> digit_char d = CHR ''0'' \<longleftrightarrow> d = 0"
proof -
  assume d: "d < 10"
  have "digit_char d = CHR ''0'' \<longleftrightarrow> (of_char (digit_char d) :: nat) = of_char (CHR ''0'')"
    by (simp only: of_char_eq_iff)
  then show ?thesis using d by (simp add: of_char_digit)
qed

lemma not_digit_chars:
  "\<not> is_digit (CHR ''-'')" "\<not> is_digit (CHR ''.'')" "\<not> is_digit (CHR '','')"
  "\<not> is_digit (CHR 0x0A)" "\<not> is_digit (CHR 0x22)"
  by (simp_all add: is_digit_def)

lemma nat_text_digits: "list_all is_digit (nat_text n)"
proof (induction n rule: nat_text.induct)
  case (1 n)
  show ?case
  proof (cases "n < 10")
    case True
    then show ?thesis by (subst nat_text.simps) (simp add: is_digit_digit_char)
  next
    case False
    with 1 show ?thesis by (subst nat_text.simps) (simp add: is_digit_digit_char)
  qed
qed

lemma nat_text_nonempty: "nat_text n \<noteq> []"
  by (subst nat_text.simps) simp

lemma digits_value_snoc:
  "digits_value (s @ [c]) = 10 * digits_value s + ((of_char c :: nat) - 48)"
  by (simp add: digits_value_def)

lemma digits_value_nat_text: "digits_value (nat_text n) = n"
proof (induction n rule: nat_text.induct)
  case (1 n)
  show ?case
  proof (cases "n < 10")
    case True
    then show ?thesis
      by (subst nat_text.simps) (simp add: digits_value_def of_char_digit)
  next
    case False
    with 1 have "digits_value (nat_text (n div 10)) = n div 10" by simp
    with False show ?thesis
      by (subst nat_text.simps) (simp add: digits_value_snoc of_char_digit)
  qed
qed

lemma span_digits:
  assumes "list_all is_digit ds" "t = [] \<or> \<not> is_digit (hd t)"
  shows "takeWhile is_digit (ds @ t) = ds" and "dropWhile is_digit (ds @ t) = t"
proof -
  have t: "takeWhile is_digit t = []" "dropWhile is_digit t = t"
    using assms(2) by (cases t; simp)+
  show "takeWhile is_digit (ds @ t) = ds" "dropWhile is_digit (ds @ t) = t"
    using assms(1) t by (induction ds) simp_all
qed


lemma floor_power_of: "0 \<le> j \<Longrightarrow> \<lfloor>power_of 10 j\<rfloor> = 10 ^ nat j"
proof -
  assume "0 \<le> j"
  then have "power_of 10 j = of_int (10 ^ nat j)" by (simp add: power_of_powi power_int_def)
  then show ?thesis by (simp only: floor_of_int)
qed

lemma candidates_pos:
  assumes x: "0 < x" and k: "1 \<le> k" and c: "candidates x k = (a, b)"
  shows "1 \<le> fst a" and "1 \<le> fst b"
proof -
  define n where "n = ilog 10 x + 1"
  define lo where "lo = \<lfloor>x * power_of 10 (k - n)\<rfloor>"
  have "10 powi (n - 1) \<le> x" using ilog_bounds(1) [OF x, of 10] by (simp add: n_def)
  then have "10 powi (n - 1) * 10 powi (k - n) \<le> x * 10 powi (k - n)"
    by (intro mult_right_mono) simp_all
  moreover have "(10::rat) powi (n - 1) * 10 powi (k - n) = 10 powi (k - 1)"
    by (simp flip: power_int_add)
  moreover have "(1::rat) \<le> 10 powi (k - 1)" using k by (intro one_le_power_int) simp_all
  ultimately have "1 \<le> x * 10 powi (k - n)" by simp
  then have lo: "1 \<le> lo" by (simp add: lo_def le_floor_iff power_of_powi)
  have a: "a = (lo, n)"
    and b: "b = (if of_int (lo + 1) = power_of 10 k then (\<lfloor>power_of 10 (k - 1)\<rfloor>, n + 1)
                 else (lo + 1, n))"
    using c by (auto simp: candidates_def Let_def n_def lo_def)
  show "1 \<le> fst a" using lo by (simp add: a)
  have "(1::int) \<le> \<lfloor>power_of 10 (k - 1)\<rfloor>" using k by (simp add: floor_power_of)
  then show "1 \<le> fst b" using lo by (simp add: b)
qed

lemma nearer_cases: "nearer x k a b = a \<or> nearer x k a b = b"
  by (simp add: nearer_def Let_def)

lemma digits_at_cases:
  assumes "digits_at x k = Some c" "candidates x k = (a, b)"
  shows "c = a \<or> c = b"
  using assms nearer_cases [of x k a b]
  by (auto simp: digits_at_def Let_def split: if_splits)

lemma shortest_pos: "0 < x \<Longrightarrow> 1 \<le> k \<Longrightarrow> 1 \<le> fst (shortest x fuel k)"
proof (induction fuel arbitrary: k)
  case 0
  obtain a b where c: "candidates x k = (a, b)" by (cases "candidates x k")
  from candidates_pos [OF 0 c] nearer_cases [of x k a b] show ?case by (auto simp: c)
next
  case (Suc fuel)
  obtain a b where c: "candidates x k = (a, b)" by (cases "candidates x k")
  show ?case
  proof (cases "digits_at x k")
    case None
    with Suc.IH [of "k + 1"] Suc.prems show ?thesis by simp
  next
    case (Some d)
    from digits_at_cases [OF Some c] candidates_pos [OF Suc.prems c] Some show ?thesis by auto
  qed
qed

lemma nat_text_head: "0 < n \<Longrightarrow> hd (nat_text n) \<noteq> CHR ''0''"
proof (induction n rule: nat_text.induct)
  case (1 n)
  show ?case
  proof (cases "n < 10")
    case True
    with 1(2) show ?thesis by (subst nat_text.simps) (simp add: digit_char_zero)
  next
    case False
    then have "0 < n div 10" by simp
    with 1(1) [OF False] have "hd (nat_text (n div 10)) \<noteq> CHR ''0''" by simp
    with False show ?thesis
      by (subst nat_text.simps) (simp add: nat_text_nonempty)
  qed
qed

lemma mark_chars:
  "\<not> is_digit (CHR ''e'')" "\<not> is_digit (CHR ''+'')" "CHR ''e'' \<noteq> CHR ''.''"
  "CHR ''+'' \<noteq> CHR ''-''"
  by (simp_all add: is_digit_def)

lemma parse_number_shape:
  assumes ds: "list_all is_digit ds" "ds \<noteq> []" "length ds > 1 \<longrightarrow> hd ds \<noteq> CHR ''0''"
    and fs: "list_all is_digit fs"
    and xs: "list_all is_digit xs" "ex \<longrightarrow> xs \<noteq> []"
    and rest: "after_number rest"
  shows "parse_number ((if neg then ''-'' else []) @ ds @ (if fs = [] then [] else CHR ''.'' # fs)
            @ (if ex then CHR ''e'' # (if eneg then CHR ''-'' else CHR ''+'') # xs else []) @ rest)
         = Some (double (decimal neg ds fs
                   * power_of 10 (if ex then (if eneg then - int (digits_value xs)
                                              else int (digits_value xs))
                                  else 0)), rest)"
proof -
  define T where "T = (if ex then CHR ''e'' # (if eneg then CHR ''-'' else CHR ''+'') # xs else []) @ rest"
  define F where "F = (if fs = [] then [] else CHR ''.'' # fs) @ T"
  define s where "s = (if neg then ''-'' else []) @ ds @ F"
  from ds obtain c cs where dcs: "ds = c # cs" "is_digit c" by (cases ds) auto
  then have c: "c \<noteq> CHR ''-''" using not_digit_chars(1) by auto
  have r: "rest = [] \<or> \<not> is_digit (hd rest)"
    and rdot: "rest = [] \<or> hd rest \<noteq> CHR ''.''"
    and rex: "rest = [] \<or> (hd rest \<noteq> CHR ''e'' \<and> hd rest \<noteq> CHR ''E'')"
    using rest by (auto simp: after_number_def)
  have Td: "T = [] \<or> \<not> is_digit (hd T)" using r by (simp add: T_def mark_chars)
  have Fd: "F = [] \<or> \<not> is_digit (hd F)" using Td by (simp add: F_def not_digit_chars)
  have neg: "(s \<noteq> [] \<and> hd s = CHR ''-'') = neg" using dcs c by (simp add: s_def)
  have s1: "(if neg then tl s else s) = ds @ F" by (simp add: s_def)
  note sp = span_digits [OF ds(1) Fd]
  have frac: "(F \<noteq> [] \<and> hd F = CHR ''.'') = (fs \<noteq> [])"
    using rdot by (auto simp: F_def T_def)
  have fs': "(if fs \<noteq> [] then takeWhile is_digit (tl F) else []) = fs"
    and s3: "(if fs \<noteq> [] then dropWhile is_digit (tl F) else F) = T"
    using span_digits [OF fs Td] by (auto simp: F_def)
  have exf: "(T \<noteq> [] \<and> (hd T = CHR ''e'' \<or> hd T = CHR ''E'')) = ex"
    using rex by (auto simp: T_def)
  define s4 where "s4 = (if ex then tl T else T)"
  have sg: "(ex \<and> s4 \<noteq> [] \<and> (hd s4 = CHR ''+'' \<or> hd s4 = CHR ''-'')) = ex"
    by (auto simp: s4_def T_def)
  have sgn: "(ex \<and> hd s4 = CHR ''-'') = (ex \<and> eneg)"
    by (auto simp: s4_def T_def)
  have xs': "(if ex then takeWhile is_digit (if ex then tl s4 else s4) else []) = (if ex then xs else [])"
    and s6: "(if ex then dropWhile is_digit (if ex then tl s4 else s4) else T) = rest"
    using span_digits [OF xs(1) r] by (auto simp: s4_def T_def)
  have z: "digits_value [] = 0" by (simp add: digits_value_def)
  have "parse_number s
         = Some (double (decimal neg ds fs
                   * power_of 10 (if ex then (if eneg then - int (digits_value xs)
                                              else int (digits_value xs))
                                  else 0)), rest)"
    unfolding parse_number_def Let_def neg s1 sp frac fs' s3 exf s4_def [symmetric] sg sgn xs' s6
    using ds(2,3) xs(2) by (auto simp: z)
  then show ?thesis by (simp add: s_def F_def T_def)
qed

lemma number_format_shape:
  assumes ds: "list_all is_digit ds" "ds \<noteq> []" "hd ds \<noteq> CHR ''0''"
  shows "\<exists>ip fp ex eneg xs.
           number_format ds n
             = ip @ (if fp = [] then [] else CHR ''.'' # fp)
                  @ (if ex then CHR ''e'' # (if eneg then CHR ''-'' else CHR ''+'') # xs else [])
           \<and> list_all is_digit ip \<and> ip \<noteq> [] \<and> (length ip > 1 \<longrightarrow> hd ip \<noteq> CHR ''0'')
           \<and> list_all is_digit fp \<and> list_all is_digit xs \<and> (ex \<longrightarrow> xs \<noteq> [])"
    (is "\<exists>ip fp ex eneg xs. ?P ip fp ex eneg xs")
proof -
  define k where "k = int (length ds)"
  have z: "is_digit (CHR ''0'')" by (simp add: is_digit_def)
  have k1: "1 \<le> k" using ds(2) by (cases ds) (simp_all add: k_def)
  consider (A) "k \<le> n \<and> n \<le> 21"
    | (B) "\<not> (k \<le> n \<and> n \<le> 21)" "0 < n \<and> n \<le> 21"
    | (C) "\<not> (k \<le> n \<and> n \<le> 21)" "\<not> (0 < n \<and> n \<le> 21)" "- 6 < n \<and> n \<le> 0"
    | (D) "\<not> (k \<le> n \<and> n \<le> 21)" "\<not> (0 < n \<and> n \<le> 21)" "\<not> (- 6 < n \<and> n \<le> 0)"
    by blast
  then show ?thesis
  proof cases
    case A
    have "?P (ds @ replicate (nat (n - k)) (CHR ''0'')) [] False False []"
      using A ds z by (auto simp: number_format_def Let_def k_def list_all_iff)
    then show ?thesis by blast
  next
    case B
    then have nk: "nat n < length ds" "0 < nat n" by (auto simp: k_def)
    have "?P (take (nat n) ds) (drop (nat n) ds) False False []"
      using B ds nk
      by (auto simp: number_format_def Let_def k_def list_all_iff hd_take dest: in_set_takeD in_set_dropD)
    then show ?thesis by blast
  next
    case C
    have "?P ''0'' (replicate (nat (- n)) (CHR ''0'') @ ds) False False []"
      using C ds z by (auto simp: number_format_def Let_def k_def list_all_iff)
    then show ?thesis by blast
  next
    case D
    let ?xs = "nat_text (nat \<bar>n - 1\<bar>)"
    show ?thesis
    proof (cases "k = 1")
      case True
      have "?P ds [] True (n - 1 < 0) ?xs"
        using D ds True
        by (auto simp: number_format_def Let_def k_def nat_text_digits nat_text_nonempty)
      then show ?thesis by blast
    next
      case False
      then have "1 < length ds" using k1 by (simp add: k_def)
      then have tl: "tl ds \<noteq> []" by (cases ds) auto
      have tld: "list_all is_digit (tl ds)" "is_digit (hd ds)"
        using ds(1,2) by (cases ds; simp)+
      have "?P [hd ds] (tl ds) True (n - 1 < 0) ?xs"
        using D False tl tld
        by (auto simp: number_format_def Let_def k_def nat_text_digits nat_text_nonempty)
      then show ?thesis by blast
    qed
  qed
qed

lemma num_text_shape:
  "\<exists>neg ip fp ex eneg xs.
     num_text (Fin q)
       = (if neg then ''-'' else []) @ ip @ (if fp = [] then [] else CHR ''.'' # fp)
            @ (if ex then CHR ''e'' # (if eneg then CHR ''-'' else CHR ''+'') # xs else [])
     \<and> list_all is_digit ip \<and> ip \<noteq> [] \<and> (length ip > 1 \<longrightarrow> hd ip \<noteq> CHR ''0'')
     \<and> list_all is_digit fp \<and> list_all is_digit xs \<and> (ex \<longrightarrow> xs \<noteq> [])"
  (is "\<exists>neg ip fp ex eneg xs. ?P neg ip fp ex eneg xs")
proof (cases "q = 0")
  case True
  have "?P False ''0'' [] False False []" by (simp add: num_text_def True is_digit_def)
  then show ?thesis by blast
next
  case False
  obtain s n where sn: "shortest \<bar>q\<bar> 16 1 = (s, n)" by (cases "shortest \<bar>q\<bar> 16 1")
  have "1 \<le> fst (shortest \<bar>q\<bar> 16 1)" using False by (intro shortest_pos) simp_all
  then have s: "0 < nat s" by (simp add: sn)
  from number_format_shape [OF nat_text_digits nat_text_nonempty nat_text_head [OF s], of n]
  obtain ip fp ex eneg xs where
    f: "number_format (nat_text (nat s)) n
         = ip @ (if fp = [] then [] else CHR ''.'' # fp)
              @ (if ex then CHR ''e'' # (if eneg then CHR ''-'' else CHR ''+'') # xs else [])"
    "list_all is_digit ip \<and> ip \<noteq> [] \<and> (length ip > 1 \<longrightarrow> hd ip \<noteq> CHR ''0'')
       \<and> list_all is_digit fp \<and> list_all is_digit xs \<and> (ex \<longrightarrow> xs \<noteq> [])"
    by blast
  have "num_text (Fin q) = (if q < 0 then ''-'' else []) @ number_format (nat_text (nat s)) n"
    using False by (simp add: num_text_def sn)
  with f have "?P (q < 0) ip fp ex eneg xs" by simp
  then show ?thesis by blast
qed

lemma parse_number_text:
  assumes "after_number rest"
  shows "parse_number (num_text (Fin q) @ rest) = Some (reread q, rest)"
proof -
  from num_text_shape [of q] obtain neg ip fp ex eneg xs where
    t: "num_text (Fin q)
       = (if neg then ''-'' else []) @ ip @ (if fp = [] then [] else CHR ''.'' # fp)
            @ (if ex then CHR ''e'' # (if eneg then CHR ''-'' else CHR ''+'') # xs else [])"
    and ip: "list_all is_digit ip" "ip \<noteq> []" "length ip > 1 \<longrightarrow> hd ip \<noteq> CHR ''0''"
    and fp: "list_all is_digit fp" and xs: "list_all is_digit xs" "ex \<longrightarrow> xs \<noteq> []"
    by blast
  have e: "after_number []" by (simp add: after_number_def)
  from parse_number_shape [OF ip fp xs e, of neg eneg]
  have "reread q = double (decimal neg ip fp
                   * power_of 10 (if ex then (if eneg then - int (digits_value xs)
                                              else int (digits_value xs))
                                  else 0))"
    by (simp add: reread_def t)
  with parse_number_shape [OF ip fp xs assms, of neg eneg] show ?thesis
    by (simp add: t)
qed

subsection \<open>Values\<close>

lemma ws_chars:
  "is_ws (CHR 0x0A)" "is_ws (CHR '' '')"
  "\<not> is_ws (CHR '','')" "\<not> is_ws (CHR '']'')" "\<not> is_ws (CHR ''}'')" "\<not> is_ws (CHR '':'')"
  "\<not> is_ws (CHR 0x22)"
  by (simp_all add: is_ws_def)

lemma skip_ws_ws: "list_all is_ws w \<Longrightarrow> skip_ws (w @ s) = skip_ws s"
  by (simp add: skip_ws_def list_all_iff dropWhile_append2)

lemma skip_ws_Cons: "\<not> is_ws c \<Longrightarrow> skip_ws (c # s) = c # s"
  by (simp add: skip_ws_def)

lemma digit_not_special:
  assumes "is_digit c"
  shows "c \<noteq> CHR ''n''" "c \<noteq> CHR ''t''" "c \<noteq> CHR ''f''" "c \<noteq> CHR 0x22" "c \<noteq> CHR ''[''"
    "c \<noteq> CHR ''{''" "c \<noteq> CHR '']''" "c \<noteq> CHR ''}''" "\<not> is_ws c"
  using assms by (auto simp: is_digit_def is_ws_def)

lemma num_start: "\<exists>c t. num_text (Fin q) = c # t \<and> (c = CHR ''-'' \<or> is_digit c)"
proof -
  from num_text_shape [of q] obtain neg ip fp ex eneg xs where
    t: "num_text (Fin q)
       = (if neg then ''-'' else []) @ ip @ (if fp = [] then [] else CHR ''.'' # fp)
            @ (if ex then CHR ''e'' # (if eneg then CHR ''-'' else CHR ''+'') # xs else [])"
    and ip: "list_all is_digit ip" "ip \<noteq> []"
    by blast
  from ip obtain c cs where "ip = c # cs" "is_digit c" by (cases ip) auto
  then show ?thesis by (cases neg) (simp_all add: t)
qed

lemma stringify_start: "\<exists>c t. stringify ind v = c # t \<and> value_start c"
proof (cases v)
  case (JNum n)
  show ?thesis
  proof (cases n)
    case NaN
    with JNum show ?thesis by (simp add: value_start_def is_ws_def)
  next
    case (Infinity s)
    with JNum show ?thesis by (simp add: value_start_def is_ws_def)
  next
    case (Fin q)
    from num_start [of q] obtain c t where ct: "num_text (Fin q) = c # t" "c = CHR ''-'' \<or> is_digit c"
      by blast
    from ct(2) have "value_start c"
      by (auto simp: value_start_def is_ws_def dest: digit_not_special)
    with ct(1) JNum Fin show ?thesis by simp
  qed
qed (auto simp: value_start_def is_ws_def quote_def)

lemma after_number_simps:
  "after_number []" "after_number (CHR 0x0A # s)" "after_number (CHR '','' # s)"
  by (simp_all add: after_number_def is_digit_def)

lemma readsD:
  "reads v \<Longrightarrow> weight v \<le> fuel \<Longrightarrow> list_all is_ws ind \<Longrightarrow> after_number rest \<Longrightarrow>
     parse_value fuel (stringify ind v @ rest) = Some (reparse v, rest)"
  by (simp add: reads_def)

lemma reads_atoms: "reads JNull" "reads (JBool b)" "reads (JStr s)"
proof -
  show "reads JNull"
    unfolding reads_def
  proof (intro allI impI)
    fix fuel :: nat and ind rest :: string
    assume "weight JNull \<le> fuel"
    then obtain n where "fuel = Suc n" by (cases fuel) auto
    then show "parse_value fuel (stringify ind JNull @ rest) = Some (reparse JNull, rest)"
      by (simp add: literal_def)
  qed
  show "reads (JBool b)"
    unfolding reads_def
  proof (intro allI impI)
    fix fuel :: nat and ind rest :: string
    assume "weight (JBool b) \<le> fuel"
    then obtain n where "fuel = Suc n" by (cases fuel) auto
    then show "parse_value fuel (stringify ind (JBool b) @ rest) = Some (reparse (JBool b), rest)"
      by (cases b) (simp_all add: literal_def)
  qed
  show "reads (JStr s)"
    unfolding reads_def
  proof (intro allI impI)
    fix fuel :: nat and ind rest :: string
    assume "weight (JStr s) \<le> fuel"
    then obtain n where "fuel = Suc n" by (cases fuel) auto
    then show "parse_value fuel (stringify ind (JStr s) @ rest) = Some (reparse (JStr s), rest)"
      by (simp add: quote_def parse_quoted)
  qed
qed

lemma reads_num: "reads (JNum n)"
  unfolding reads_def
proof (intro allI impI)
  fix fuel :: nat and ind rest :: string
  assume "weight (JNum n) \<le> fuel" and rest: "after_number rest"
  then obtain m where fuel: "fuel = Suc m" by (cases fuel) auto
  show "parse_value fuel (stringify ind (JNum n) @ rest) = Some (reparse (JNum n), rest)"
  proof (cases n)
    case NaN
    with fuel show ?thesis by (simp add: literal_def)
  next
    case (Infinity s)
    with fuel show ?thesis by (simp add: literal_def)
  next
    case (Fin q)
    from num_start [of q] obtain c t where ct: "num_text (Fin q) = c # t" "c = CHR ''-'' \<or> is_digit c"
      by blast
    from ct(2) have c: "c \<noteq> CHR ''n''" "c \<noteq> CHR ''t''" "c \<noteq> CHR ''f''" "c \<noteq> CHR 0x22"
      "c \<noteq> CHR ''[''" "c \<noteq> CHR ''{''"
      by (auto dest: digit_not_special)
    have "parse_value (Suc m) ((c # t) @ rest) = map_option (\<lambda>(x, r). (JNum x, r)) (parse_number ((c # t) @ rest))"
      using c by simp
    also have "\<dots> = Some (JNum (reread q), rest)"
      unfolding ct(1) [symmetric] by (simp add: parse_number_text [OF rest])
    finally show ?thesis using Fin fuel ct(1) by simp
  qed
qed

lemma elements_text:
  assumes "\<forall>x \<in> set xs. reads x" "xs \<noteq> []"
    and "sum_list (map (\<lambda>x. Suc (weight x)) xs) \<le> fuel"
    and "list_all is_ws ind" "list_all is_ws ind0"
  shows "parse_elements fuel
           (join ('','' @ [CHR 0x0A] @ ind) (map (stringify ind) xs) @ [CHR 0x0A] @ ind0 @ '']'' @ rest)
         = Some (map reparse xs, rest)"
  using assms(1,2,3)
proof (induction xs arbitrary: fuel)
  case Nil
  then show ?case by simp
next
  case (Cons x xs)
  from Cons.prems(3) obtain m where fuel: "fuel = Suc m" and m: "weight x \<le> m"
    "sum_list (map (\<lambda>x. Suc (weight x)) xs) \<le> m"
    by (cases fuel) auto
  have rx: "reads x" using Cons.prems(1) by simp
  show ?case
  proof (cases xs)
    case Nil
    let ?r = "[CHR 0x0A] @ ind0 @ '']'' @ rest"
    have "parse_value m (stringify ind x @ ?r) = Some (reparse x, ?r)"
      by (rule readsD [OF rx m(1) assms(4)]) (simp add: after_number_simps)
    moreover have "skip_ws ?r = CHR '']'' # rest"
      using skip_ws_ws [of "CHR 0x0A # ind0" "CHR '']'' # rest"] assms(5)
      by (simp add: ws_chars skip_ws_Cons)
    ultimately show ?thesis using Nil fuel by simp
  next
    case (Cons y ys)
    let ?tail = "join ('','' @ [CHR 0x0A] @ ind) (map (stringify ind) xs) @ [CHR 0x0A] @ ind0 @ '']'' @ rest"
    let ?r = "CHR '','' # [CHR 0x0A] @ ind @ ?tail"
    have "parse_value m (stringify ind x @ ?r) = Some (reparse x, ?r)"
      by (rule readsD [OF rx m(1) assms(4)]) (simp add: after_number_simps)
    moreover have "skip_ws ?r = ?r" by (simp add: skip_ws_Cons ws_chars)
    moreover have "skip_ws ([CHR 0x0A] @ ind @ ?tail) = ?tail"
    proof -
      from stringify_start [of ind y] obtain c t where ct: "stringify ind y = c # t" "value_start c"
        by blast
      then have "\<exists>u. ?tail = c # u" using Cons by (cases ys) simp_all
      then obtain u where u: "?tail = c # u" by blast
      have "skip_ws ((CHR 0x0A # ind) @ ?tail) = skip_ws ?tail"
        using assms(4) by (intro skip_ws_ws) (simp add: ws_chars)
      also have "\<dots> = ?tail" unfolding u using ct(2) by (simp add: skip_ws_Cons value_start_def)
      finally show ?thesis by simp
    qed
    moreover have "parse_elements m ?tail = Some (map reparse xs, rest)"
      using Cons.IH [OF _ _ m(2)] Cons.prems(1) Cons by simp
    ultimately show ?thesis using Cons fuel by simp
  qed
qed

lemma parse_open_bracket:
  assumes "skip_ws t = c # u" "c \<noteq> CHR '']''" "parse_elements m (c # u) = Some (vs, r)"
  shows "parse_value (Suc m) (CHR ''['' # t) = Some (JArr vs, r)"
  using assms by simp

lemma skip_to_value:
  assumes "list_all is_ws w" "stringify ind y = c # t" "value_start c"
  shows "skip_ws (w @ stringify ind y @ s) = c # t @ s"
proof -
  have "skip_ws (w @ stringify ind y @ s) = skip_ws (stringify ind y @ s)"
    using assms(1) by (rule skip_ws_ws)
  also have "\<dots> = c # t @ s"
    using assms(2,3) by (simp add: skip_ws_Cons value_start_def)
  finally show ?thesis .
qed

lemma join_Cons_start: "xs \<noteq> [] \<Longrightarrow> \<exists>s. join sep (map f xs) = f (hd xs) @ s"
proof (cases xs)
  case Nil
  assume "xs \<noteq> []"
  with Nil show ?thesis by simp
next
  case (Cons y ys)
  then show ?thesis by (cases ys) simp_all
qed

lemma reads_arr:
  assumes "\<forall>x \<in> set xs. reads x"
  shows "reads (JArr xs)"
  unfolding reads_def
proof (intro allI impI)
  fix fuel :: nat and ind rest :: string
  assume w: "weight (JArr xs) \<le> fuel" and ind: "list_all is_ws ind" and rest: "after_number rest"
  then obtain m where fuel: "fuel = Suc m" and m: "sum_list (map (\<lambda>x. Suc (weight x)) xs) \<le> m"
    by (cases fuel) auto
  show "parse_value fuel (stringify ind (JArr xs) @ rest) = Some (reparse (JArr xs), rest)"
  proof (cases "xs = []")
    case True
    then show ?thesis using fuel by (simp add: skip_ws_Cons ws_chars)
  next
    case False
    define ind' where "ind' = ind @ ''  ''"
    define body where
      "body = join ('','' @ [CHR 0x0A] @ ind') (map (stringify ind') xs) @ [CHR 0x0A] @ ind @ '']'' @ rest"
    have i2: "list_all is_ws ind'" using ind by (simp add: ind'_def ws_chars)
    from join_Cons_start [OF False] obtain s where
      j: "join ('','' @ [CHR 0x0A] @ ind') (map (stringify ind') xs) = stringify ind' (hd xs) @ s"
      by blast
    from stringify_start [of ind' "hd xs"] obtain c t
      where ct: "stringify ind' (hd xs) = c # t" "value_start c"
      by blast
    have b: "body = stringify ind' (hd xs) @ (s @ [CHR 0x0A] @ ind @ '']'' @ rest)"
      unfolding body_def j by simp
    have sk: "skip_ws ((CHR 0x0A # ind') @ body) = c # t @ (s @ [CHR 0x0A] @ ind @ '']'' @ rest)"
      unfolding b by (rule skip_to_value [OF _ ct]) (simp add: i2 ws_chars)
    have bc: "body = c # t @ (s @ [CHR 0x0A] @ ind @ '']'' @ rest)"
      unfolding b ct(1) by simp
    have el: "parse_elements m body = Some (map reparse xs, rest)"
      unfolding body_def by (rule elements_text [OF assms False m i2 ind])
    have shape: "stringify ind (JArr xs) @ rest = CHR ''['' # (CHR 0x0A # ind') @ body"
      using False by (simp add: body_def ind'_def)
    have "parse_value (Suc m) (CHR ''['' # (CHR 0x0A # ind') @ body) = Some (JArr (map reparse xs), rest)"
    proof (rule parse_open_bracket [OF sk])
      show "c \<noteq> CHR '']''" using ct(2) by (simp add: value_start_def)
      show "parse_elements m (c # t @ s @ [CHR 0x0A] @ ind @ '']'' @ rest) = Some (map reparse xs, rest)"
        using el unfolding bc .
    qed
    then show ?thesis unfolding shape fuel by simp
  qed
qed

lemma member_head:
  "parse_members (Suc m) (quote k @ '': '' @ r) =
     (case parse_value m (skip_ws (CHR '' '' # r)) of
        None \<Rightarrow> None
      | Some (v, r1) \<Rightarrow>
          (case skip_ws r1 of
             [] \<Rightarrow> None
           | e # w \<Rightarrow>
               if e = CHR '','' then
                 map_option (\<lambda>(ms, r2). ((k, v) # ms, r2)) (parse_members m (skip_ws w))
               else if e = CHR ''}'' then Some ([(k, v)], w)
               else None))"
proof -
  have "quote k @ '': '' @ r = CHR 0x22 # (concat (map escape_char k) @ CHR 0x22 # (CHR '':'' # CHR '' '' # r))"
    by (simp add: quote_def)
  then show ?thesis
    by (simp only: parse_members.simps list.case parse_quoted option.case prod.case
        skip_ws_Cons [OF ws_chars(6)]) simp
qed

lemma member_value:
  assumes "reads v" "weight v \<le> m" "list_all is_ws ind" "after_number r"
  shows "parse_value m (skip_ws (CHR '' '' # stringify ind v @ r)) = Some (reparse v, r)"
proof -
  from stringify_start [of ind v] obtain c t where ct: "stringify ind v = c # t" "value_start c"
    by blast
  have "skip_ws ([CHR '' ''] @ stringify ind v @ r) = c # t @ r"
    by (rule skip_to_value [OF _ ct]) (simp add: ws_chars)
  then have "skip_ws (CHR '' '' # stringify ind v @ r) = stringify ind v @ r"
    using ct(1) by simp
  then show ?thesis using readsD [OF assms] by simp
qed

lemma members_text:
  assumes "\<forall>p \<in> set ps. reads (snd p)" "ps \<noteq> []"
    and "sum_list (map (\<lambda>p. Suc (weight (snd p))) ps) \<le> fuel"
    and "list_all is_ws ind" "list_all is_ws ind0"
  shows "parse_members fuel
           (join ('','' @ [CHR 0x0A] @ ind)
              (map (\<lambda>p. quote (fst p) @ '': '' @ stringify ind (snd p)) ps)
            @ [CHR 0x0A] @ ind0 @ ''}'' @ rest)
         = Some (map (\<lambda>p. (fst p, reparse (snd p))) ps, rest)"
  using assms(1,2,3)
proof (induction ps arbitrary: fuel)
  case Nil
  then show ?case by simp
next
  case (Cons p ps)
  from Cons.prems(3) obtain m where fuel: "fuel = Suc m" and m: "weight (snd p) \<le> m"
    "sum_list (map (\<lambda>p. Suc (weight (snd p))) ps) \<le> m"
    by (cases fuel) auto
  have rp: "reads (snd p)" using Cons.prems(1) by simp
  let ?f = "\<lambda>p. quote (fst p) @ '': '' @ stringify ind (snd p)"
  show ?case
  proof (cases "ps = []")
    case True
    define r where "r = [CHR 0x0A] @ ind0 @ ''}'' @ rest"
    have ar: "after_number r" by (simp add: r_def after_number_simps)
    have sr: "skip_ws r = CHR ''}'' # rest"
      unfolding r_def using skip_ws_ws [of "CHR 0x0A # ind0" "CHR ''}'' # rest"] assms(5)
      by (simp add: ws_chars skip_ws_Cons)
    have "parse_members (Suc m) (quote (fst p) @ '': '' @ (stringify ind (snd p) @ r))
        = Some ([(fst p, reparse (snd p))], rest)"
      unfolding member_head member_value [OF rp m(1) assms(4) ar] by (simp add: sr)
    then show ?thesis using True fuel by (simp add: r_def)
  next
    case False
    define tail where
      "tail = join ('','' @ [CHR 0x0A] @ ind) (map ?f ps) @ [CHR 0x0A] @ ind0 @ ''}'' @ rest"
    define r where "r = CHR '','' # (CHR 0x0A # ind) @ tail"
    have ar: "after_number r" by (simp add: r_def after_number_simps)
    have sr: "skip_ws r = r" by (simp add: r_def skip_ws_Cons ws_chars)
    from join_Cons_start [OF False, of "'','' @ [CHR 0x0A] @ ind" ?f] obtain s where
      j: "join ('','' @ [CHR 0x0A] @ ind) (map ?f ps) = ?f (hd ps) @ s"
      by blast
    have "\<exists>u. tail = CHR 0x22 # u" unfolding tail_def j by (simp add: quote_def)
    then obtain u where u: "tail = CHR 0x22 # u" by blast
    have st: "skip_ws (CHR 0x0A # ind @ tail) = tail"
    proof -
      have "skip_ws ((CHR 0x0A # ind) @ tail) = skip_ws tail"
        using assms(4) by (intro skip_ws_ws) (simp add: ws_chars)
      then show ?thesis unfolding u by (simp add: skip_ws_Cons ws_chars)
    qed
    have ih: "parse_members m tail = Some (map (\<lambda>p. (fst p, reparse (snd p))) ps, rest)"
      unfolding tail_def using Cons.IH [OF _ False m(2)] Cons.prems(1) by simp
    have "parse_members (Suc m) (quote (fst p) @ '': '' @ (stringify ind (snd p) @ r))
        = Some ((fst p, reparse (snd p)) # map (\<lambda>p. (fst p, reparse (snd p))) ps, rest)"
      unfolding member_head member_value [OF rp m(1) assms(4) ar]
      by (simp add: sr) (simp add: r_def st ih)
    moreover have "join ('','' @ [CHR 0x0A] @ ind) (map ?f (p # ps)) @ [CHR 0x0A] @ ind0 @ ''}'' @ rest
        = quote (fst p) @ '': '' @ (stringify ind (snd p) @ r)"
      using False by (cases ps) (simp_all add: r_def tail_def)
    ultimately show ?thesis using fuel by simp
  qed
qed

lemma parse_open_brace:
  assumes "skip_ws t = c # u" "c \<noteq> CHR ''}''" "parse_members m (c # u) = Some (ms, r)"
  shows "parse_value (Suc m) (CHR ''{'' # t) = Some (JObj (build ms), r)"
  using assms by simp

lemma reads_obj:
  assumes "\<forall>p \<in> set ps. reads (snd p)"
  shows "reads (JObj ps)"
  unfolding reads_def
proof (intro allI impI)
  fix fuel :: nat and ind rest :: string
  assume w: "weight (JObj ps) \<le> fuel" and ind: "list_all is_ws ind" and rest: "after_number rest"
  then obtain m where fuel: "fuel = Suc m"
    and m: "sum_list (map (\<lambda>p. Suc (weight (snd p))) ps) \<le> m"
    by (cases fuel) auto
  show "parse_value fuel (stringify ind (JObj ps) @ rest) = Some (reparse (JObj ps), rest)"
  proof (cases "ps = []")
    case True
    then show ?thesis using fuel by (simp add: skip_ws_Cons ws_chars build_def)
  next
    case False
    define ind' where "ind' = ind @ ''  ''"
    let ?f = "\<lambda>p. quote (fst p) @ '': '' @ stringify ind' (snd p)"
    define body where
      "body = join ('','' @ [CHR 0x0A] @ ind') (map ?f ps) @ [CHR 0x0A] @ ind @ ''}'' @ rest"
    have i2: "list_all is_ws ind'" using ind by (simp add: ind'_def ws_chars)
    from join_Cons_start [OF False, of "'','' @ [CHR 0x0A] @ ind'" ?f] obtain s where
      j: "join ('','' @ [CHR 0x0A] @ ind') (map ?f ps) = ?f (hd ps) @ s"
      by blast
    have "\<exists>u. body = CHR 0x22 # u" unfolding body_def j by (simp add: quote_def)
    then obtain u where u: "body = CHR 0x22 # u" by blast
    have sk: "skip_ws ((CHR 0x0A # ind') @ body) = CHR 0x22 # u"
    proof -
      have "skip_ws ((CHR 0x0A # ind') @ body) = skip_ws body"
        using i2 by (intro skip_ws_ws) (simp add: ws_chars)
      then show ?thesis unfolding u by (simp add: skip_ws_Cons ws_chars)
    qed
    have el: "parse_members m body = Some (map (\<lambda>p. (fst p, reparse (snd p))) ps, rest)"
      unfolding body_def by (rule members_text [OF assms False m i2 ind])
    have shape: "stringify ind (JObj ps) @ rest = CHR ''{'' # (CHR 0x0A # ind') @ body"
      using False by (simp add: body_def ind'_def)
    have "parse_value (Suc m) (CHR ''{'' # (CHR 0x0A # ind') @ body)
        = Some (JObj (build (map (\<lambda>p. (fst p, reparse (snd p))) ps)), rest)"
    proof (rule parse_open_brace [OF sk])
      show "CHR 0x22 \<noteq> CHR ''}''" by simp
      show "parse_members m (CHR 0x22 # u) = Some (map (\<lambda>p. (fst p, reparse (snd p))) ps, rest)"
        using el unfolding u .
    qed
    then show ?thesis unfolding shape fuel by simp
  qed
qed

lemma reads_all: "reads v"
proof (induction v)
  case (JArr xs)
  then show ?case by (intro reads_arr) simp
next
  case (JObj ps)
  have "reads (snd p)" if "p \<in> set ps" for p
    using JObj [OF that, of "snd p"] by (cases p) simp
  then show ?case by (intro reads_obj) simp
qed (simp_all add: reads_atoms reads_num)

lemma length_join:
  "length (join sep xs) = sum_list (map length xs) + (length xs - 1) * length sep"
  by (induction sep xs rule: join.induct) simp_all

lemma stringify_nonempty: "1 \<le> length (stringify ind v)"
proof -
  from stringify_start [of ind v] obtain c t where "stringify ind v = c # t" by blast
  then show ?thesis by simp
qed

lemma weight_le_length: "weight v \<le> length (stringify ind v)"
proof (induction v arbitrary: ind)
  case (JArr xs)
  show ?case
  proof (cases "xs = []")
    case True
    then show ?thesis by simp
  next
    case False
    let ?ind = "ind @ ''  ''"
    have "sum_list (map (\<lambda>x. Suc (weight x)) xs) \<le> sum_list (map (\<lambda>x. Suc (length (stringify ?ind x))) xs)"
      using JArr by (intro sum_list_mono) simp
    also have "\<dots> = sum_list (map length (map (stringify ?ind) xs)) + length xs"
      by (simp add: sum_list_Suc comp_def)
    also have "\<dots> \<le> length (join ('','' @ [CHR 0x0A] @ ?ind) (map (stringify ?ind) xs)) + 1 "
      using False by (cases xs) (simp_all add: length_join)
    finally show ?thesis using False by simp
  qed
next
  case (JObj ps)
  show ?case
  proof (cases "ps = []")
    case True
    then show ?thesis by simp
  next
    case False
    let ?ind = "ind @ ''  ''"
    let ?f = "\<lambda>p. quote (fst p) @ '': '' @ stringify ?ind (snd p)"
    have le: "weight (snd p) \<le> length (stringify ?ind (snd p))" if "p \<in> set ps" for p
      using JObj [OF that, of "snd p" ?ind] by (cases p) simp
    have "sum_list (map (\<lambda>p. Suc (weight (snd p))) ps) \<le> sum_list (map (\<lambda>p. Suc (length (?f p))) ps)"
      using le by (intro sum_list_mono) (simp add: le_SucI trans_le_add2)
    also have "\<dots> = sum_list (map length (map ?f ps)) + length ps"
      by (simp add: sum_list_Suc comp_def)
    also have "\<dots> \<le> length (join ('','' @ [CHR 0x0A] @ ?ind) (map ?f ps)) + 1 "
      using False by (cases ps) (simp_all add: length_join)
    finally show ?thesis using False by simp
  qed
next
  case (JNum n)
  show ?case using stringify_nonempty [of ind "JNum n"] by simp
next
  case (JStr s)
  show ?case using stringify_nonempty [of ind "JStr s"] by simp
qed simp_all

lemma parse_stringify: "JSON_parse (JSON_stringify v) = Some (reparse v)"
proof -
  have "parse_value (length (stringify [] v)) (stringify [] v @ []) = Some (reparse v, [])"
    by (rule readsD [OF reads_all weight_le_length]) (simp_all add: after_number_simps)
  moreover have "skip_ws (stringify [] v) = stringify [] v"
  proof -
    from stringify_start [of "[]" v] obtain c t where "stringify [] v = c # t" "value_start c"
      by blast
    then show ?thesis by (simp add: skip_ws_Cons value_start_def)
  qed
  ultimately show ?thesis
    by (simp add: JSON_parse_def JSON_stringify_def skip_ws_def)
qed

section \<open>Reading an export back\<close>

lemma reparse_ok: "json_ok v \<Longrightarrow> reparse v = v"
proof (induction v)
  case (JNum n)
  then show ?case by (cases n) simp_all
next
  case (JArr xs)
  then have "map reparse xs = xs" by (intro map_idI) (simp add: list_all_iff)
  then show ?case by simp
next
  case (JObj ps)
  have "reparse (snd p) = snd p" if "p \<in> set ps" for p
    using JObj.IH [OF that, of "snd p"] JObj.prems that by (cases p) (auto simp: list_all_iff)
  then have "map (\<lambda>p. (fst p, reparse (snd p))) ps = ps" by (intro map_idI) simp
  with JObj.prems show ?case by (simp add: canonical_def)
qed simp_all

lemma foldl_obj_set_plain:
  assumes "distinct (map fst ms)" "\<forall>m \<in> set ms. array_index (fst m) = None"
    and "fst ` set acc \<inter> fst ` set ms = {}"
  shows "foldl (\<lambda>acc m. obj_set acc (fst m) (snd m)) acc ms = acc @ ms"
  using assms
proof (induction ms arbitrary: acc)
  case Nil
  then show ?case by simp
next
  case (Cons m ms)
  have new: "fst m \<notin> fst ` set acc" using Cons.prems(3) by auto
  have ix: "array_index (fst m) = None" using Cons.prems(2) by simp
  have s: "obj_set acc (fst m) (snd m) = acc @ [m]"
    using new ix by (simp add: obj_set_def obj_add_def)
  have "fst ` set (acc @ [m]) \<inter> fst ` set ms = {}"
    using Cons.prems(1,3) by auto
  with Cons.IH [of "acc @ [m]"] Cons.prems(1,2) show ?case by (simp add: s)
qed

lemma build_plain:
  assumes "distinct (map fst ms)" "\<forall>m \<in> set ms. array_index (fst m) = None"
  shows "build ms = ms"
  using foldl_obj_set_plain [OF assms, of "[]"] by (simp add: build_def)


lemma export_keys:
  "array_index ''risk_assessments'' = None" "array_index ''metadata'' = None"
  "array_index ''mitigation_strategies'' = None" "array_index ''strategy_summary'' = None"
  "array_index ''risk_factors'' = None" "array_index ''factor_analysis'' = None"
  by (simp_all add: array_index_def is_digit_def)

lemma reparse_export:
  assumes "risk_assessments d = Some rows" "list_all (\<lambda>r. json_ok (JObj r)) rows"
  shows "\<exists>rest. reparse (export_json d) = JObj ((''risk_assessments'', JArr (map JObj rows)) # rest)"
proof -
  define ms where "ms = entry ''risk_assessments'' (\<lambda>rs. JArr (map JObj rs)) (risk_assessments d)
         @ entry ''metadata'' metadata_json (metadata d)
         @ entry ''mitigation_strategies'' (\<lambda>ss. JArr (map strategy_json ss)) (mitigation_strategies d)
         @ entry ''strategy_summary'' strategy_summary_json (strategy_summary d)
         @ entry ''risk_factors'' (\<lambda>fs. JArr (map factor_json fs)) (risk_factors d)
         @ entry ''factor_analysis'' factor_analysis_json (factor_analysis d)"
  define rs where "rs = map (\<lambda>p. (fst p, reparse (snd p))) ms"
  have keys: "distinct (map fst rs)" "\<forall>m \<in> set rs. array_index (fst m) = None"
    by (auto simp: rs_def ms_def entry_def export_keys split: option.splits)
  have ok: "json_ok (JArr (map JObj rows))" using assms(2) by (simp add: list_all_iff)
  have r: "reparse (JArr (map JObj rows)) = JArr (map JObj rows)" by (rule reparse_ok [OF ok])
  have "\<exists>rest. rs = (''risk_assessments'', JArr (map JObj rows)) # rest"
    using assms(1) by (simp add: rs_def ms_def entry_def r del: reparse.simps)
  moreover have "reparse (export_json d) = JObj rs"
    using build_plain [OF keys] by (simp add: export_json_def rs_def ms_def)
  ultimately show ?thesis by auto
qed

lemma reparse_export_other:
  assumes "risk_assessments d = None"
  shows "\<exists>ms. reparse (export_json d) = JObj ms \<and> map_of ms ''risk_assessments'' = None"
proof -
  define ms where "ms = entry ''risk_assessments'' (\<lambda>rs. JArr (map JObj rs)) (risk_assessments d)
         @ entry ''metadata'' metadata_json (metadata d)
         @ entry ''mitigation_strategies'' (\<lambda>ss. JArr (map strategy_json ss)) (mitigation_strategies d)
         @ entry ''strategy_summary'' strategy_summary_json (strategy_summary d)
         @ entry ''risk_factors'' (\<lambda>fs. JArr (map factor_json fs)) (risk_factors d)
         @ entry ''factor_analysis'' factor_analysis_json (factor_analysis d)"
  define rs where "rs = map (\<lambda>p. (fst p, reparse (snd p))) ms"
  have keys: "distinct (map fst rs)" "\<forall>m \<in> set rs. array_index (fst m) = None"
    by (auto simp: rs_def ms_def entry_def export_keys split: option.splits)
  have "''risk_assessments'' \<notin> fst ` set rs"
    using assms by (auto simp: rs_def ms_def entry_def split: option.splits)
  then have "map_of rs ''risk_assessments'' = None" by (simp add: map_of_eq_None_iff)
  moreover have "reparse (export_json d) = JObj rs"
    using build_plain [OF keys] by (simp add: export_json_def rs_def ms_def)
  ultimately show ?thesis by blast
qed

text \<open>
  C8, as the code has it. Take records that are JSON values as the runtime holds them
  (\<open>json_ok\<close>). When a view has loaded something, exporting it to JSON with the data type
  \<^verbatim>\<open>all\<close> or \<^verbatim>\<open>assessments\<close> and reading the payload back gives an object whose first
  property \<^verbatim>\<open>risk_assessments\<close> is the list of the loaded assessments, element for element.
  With any other data type, \<^verbatim>\<open>strategies\<close> and \<^verbatim>\<open>factors\<close> among them, the payload reads
  back as an object that has no property \<^verbatim>\<open>risk_assessments\<close>, whatever the records are.
  The exporter over local storage gives back the list of its records itself.
\<close>

theorem export_json_roundtrip:
  assumes "list_all (\<lambda>r. json_ok (JObj r)) (assessments st)"
    and "list_all (\<lambda>r. json_ok (JObj r)) rows"
  shows "(loaded st \<and> format \<noteq> ''csv'' \<and> (dataType = ''all'' \<or> dataType = ''assessments'') \<longrightarrow>
            (\<exists>rest. map (\<lambda>d. JSON_parse (content d))
                      (downloads (EnhancedReportsSection_exportData st format dataType now1 now2))
                    = [Some (JObj ((''risk_assessments'', JArr (map JObj (assessments st))) # rest))]))
       \<and> (loaded st' \<and> format \<noteq> ''csv'' \<and> dataType' \<noteq> ''all'' \<and> dataType' \<noteq> ''assessments'' \<longrightarrow>
            (\<exists>ms. map (\<lambda>d. JSON_parse (content d))
                    (downloads (EnhancedReportsSection_exportData st' format dataType' now1 now2))
                  = [Some (JObj ms)]
                \<and> map_of ms ''risk_assessments'' = None))
       \<and> (rows \<noteq> [] \<longrightarrow>
            map (\<lambda>d. JSON_parse (content d)) (downloads (ReportsSection_exportData rows ''json''))
              = [Some (JArr (map JObj rows))])"
proof -
  have c1: "\<exists>rest. map (\<lambda>d. JSON_parse (content d))
                      (downloads (EnhancedReportsSection_exportData st format dataType now1 now2))
                    = [Some (JObj ((''risk_assessments'', JArr (map JObj (assessments st))) # rest))]"
    if l: "loaded st" and f: "format \<noteq> ''csv''" and dt: "dataType = ''all'' \<or> dataType = ''assessments''"
  proof -
    have "risk_assessments (assemble st dataType now2) = Some (assessments st)"
      using dt by (simp add: assemble_assessments)
    from reparse_export [OF this assms(1)] obtain rest where
      "reparse (export_json (assemble st dataType now2))
         = JObj ((''risk_assessments'', JArr (map JObj (assessments st))) # rest)"
      by blast
    then show ?thesis
      using f by (simp add: export_run [OF l] parse_stringify del: reparse.simps)
  qed
  have c2: "\<exists>ms. map (\<lambda>d. JSON_parse (content d))
                    (downloads (EnhancedReportsSection_exportData st' format dataType' now1 now2))
                  = [Some (JObj ms)]
                \<and> map_of ms ''risk_assessments'' = None"
    if l: "loaded st'" and f: "format \<noteq> ''csv''"
      and dt: "dataType' \<noteq> ''all''" "dataType' \<noteq> ''assessments''"
  proof -
    have "risk_assessments (assemble st' dataType' now2) = None"
      using dt by (simp add: assemble_assessments)
    from reparse_export_other [OF this] obtain ms where
      "reparse (export_json (assemble st' dataType' now2)) = JObj ms"
      "map_of ms ''risk_assessments'' = None"
      by blast
    then show ?thesis
      using f by (simp add: export_run [OF l] parse_stringify del: reparse.simps)
  qed
  have c3: "map (\<lambda>d. JSON_parse (content d)) (downloads (ReportsSection_exportData rows ''json''))
              = [Some (JArr (map JObj rows))]" if "rows \<noteq> []"
  proof -
    have ok: "json_ok (JArr (map JObj rows))" using assms(2) by (simp add: list_all_iff)
    have r: "reparse (JArr (map JObj rows)) = JArr (map JObj rows)" by (rule reparse_ok [OF ok])
    show ?thesis
      using that
      by (simp add: ReportsSection_exportData_def Let_def parse_stringify r del: reparse.simps)
  qed
  from c1 c2 c3 show ?thesis by blast
qed

text \<open>
  The theorem on JSON exports of one record. The record of the local store holds a
  number that is printed with an exponent, \<^verbatim>\<open>1e-7\<close>, and read back from it.
\<close>

lemma canonical_plain:
  assumes "distinct (map fst ms)" "\<forall>m \<in> set ms. array_index (fst m) = None"
  shows "canonical ms"
  using build_plain [OF assms] by (simp add: canonical_def)

lemma created_ok: "json_ok (JObj (created t))"
  by (simp add: created_def canonical_plain array_index_def is_digit_def)

lemma exponent_text:
  "stringify [] (JNum (double (1 / 10000000))) = ''1e-7''"
  "JSON_parse ''1e-7'' = Some (JNum (double (1 / 10000000)))"
  by code_simp+

lemma exponent_ok: "json_ok (JNum (double (1 / 10000000)))"
  by code_simp

lemma measured_ok: "json_ok (JObj measured)"
  using exponent_ok
  by (simp add: measured_def canonical_plain array_index_def is_digit_def del: json_ok.simps(1))

theorem export_json_roundtrip_witness:
  "(\<exists>rest. map (\<lambda>d. JSON_parse (content d))
             (downloads (EnhancedReportsSection_exportData only_assessments ''json'' ''all''
                ''2025-01-15T10:30:00.000Z'' ''2025-01-15T10:30:00.001Z''))
           = [Some (JObj ((''risk_assessments'', JArr [JObj (created ''2025-01-14T00:00:00.000Z'')])
                          # rest))])
   \<and> (\<exists>ms. map (\<lambda>d. JSON_parse (content d))
             (downloads (EnhancedReportsSection_exportData both_loaded ''json'' ''factors''
                ''2025-01-15T10:30:00.000Z'' ''2025-01-15T10:30:00.001Z''))
           = [Some (JObj ms)]
         \<and> map_of ms ''risk_assessments'' = None)
   \<and> map (\<lambda>d. JSON_parse (content d)) (downloads (ReportsSection_exportData [measured] ''json''))
       = [Some (JArr [JObj measured])]"
proof -
  have l: "loaded only_assessments" "loaded both_loaded"
    by (simp_all add: loaded_def only_assessments_def both_loaded_def)
  have a: "assessments only_assessments = [created ''2025-01-14T00:00:00.000Z'']"
    by (simp add: only_assessments_def)
  have ok: "list_all (\<lambda>r. json_ok (JObj r)) (assessments only_assessments)"
    "list_all (\<lambda>r. json_ok (JObj r)) [measured]"
    unfolding a by (simp_all add: created_ok measured_ok del: json_ok.simps)
  from export_json_roundtrip [OF ok, where format = "''json''" and dataType = "''all''"
      and dataType' = "''factors''" and st' = both_loaded
      and ?now1.0 = "''2025-01-15T10:30:00.000Z''" and ?now2.0 = "''2025-01-15T10:30:00.001Z''"] l
  show ?thesis unfolding a by simp
qed

text \<open>
  C8 as stated fails for the other data types: with an assessment loaded, the JSON export
  of the strategies reads back as an object of two properties, neither of them the
  assessments.
\<close>

lemma reread_small: "reread 1 = Fin 1" "reread 8 = Fin 8"
  by code_simp+

lemma double_eight: "double 8 = Fin 8"
  by code_simp

lemma average_eight: "average [column_number (Some 8)] = Fin 8"
  by code_simp

lemma strategy_export_ok:
  "json_ok (JObj [(''mitigation_strategies'', JArr [strategy_json example_strategy]),
                  (''strategy_summary'',
                     JObj [(''total_strategies'', JNum (Fin 1)),
                           (''average_effectiveness'', JNum (Fin 8)),
                           (''sectors_covered'', JNum (Fin 1))])])"
  by (simp add: strategy_json_def example_strategy_def text_json_def canonical_plain
      array_index_def is_digit_def reread_small double_eight)

theorem export_json_counterexample:
  "assessments both_loaded = [created ''2025-01-14T00:00:00.000Z'']
   \<and> map (\<lambda>d. JSON_parse (content d))
         (downloads (EnhancedReportsSection_exportData both_loaded ''json'' ''strategies''
            ''2025-01-15T10:30:00.000Z'' ''2025-01-15T10:30:00.001Z''))
     = [Some (JObj [(''mitigation_strategies'', JArr [strategy_json example_strategy]),
                    (''strategy_summary'',
                       JObj [(''total_strategies'', JNum (Fin 1)),
                             (''average_effectiveness'', JNum (Fin 8)),
                             (''sectors_covered'', JNum (Fin 1))])])]"
proof -
  let ?v = "JObj [(''mitigation_strategies'', JArr [strategy_json example_strategy]),
                    (''strategy_summary'',
                       JObj [(''total_strategies'', JNum (Fin 1)),
                             (''average_effectiveness'', JNum (Fin 8)),
                             (''sectors_covered'', JNum (Fin 1))])]"
  have e: "export_json (assemble both_loaded ''strategies'' ''2025-01-15T10:30:00.001Z'') = ?v"
    by (simp add: both_loaded_def assemble_def Let_def
      empty_export_def export_json_def entry_def strategy_summary_json_def nat_json_def
      avgEffectiveness_of_def average_eight example_strategy_def)
  have l: "loaded both_loaded" by (simp add: loaded_def both_loaded_def)
  have "JSON_parse (JSON_stringify ?v) = Some ?v"
    unfolding parse_stringify by (simp only: reparse_ok [OF strategy_export_ok])
  then show ?thesis
    by (simp add: export_run [OF l] e) (simp add: both_loaded_def)
qed

end
